theory Spec2Isabelle
  imports Complex_Main "HOL-Library.Log_Nat"
begin

section \<open>Python floats\<close>

text \<open>
  Every number the keyboard controller of \<^verbatim>\<open>manual_control.py\<close> stores is a Python
  \<^verbatim>\<open>float\<close>, an IEEE 754 binary64 value. A finite binary64 value is a rational number,
  so the model carries values as \<^typ>\<open>rat\<close> and rounds the exact result of every
  arithmetic operation to the nearest binary64 value, ties to the even significand
  (53 bits of precision, smallest exponent \<open>-1022\<close>, so the smallest unit in the last
  place is \<open>2\<^sup>-\<^sup>1\<^sup>0\<^sup>7\<^sup>4\<close>). Overflow to infinity and NaN are not modelled: the
  controller clamps each of its values to a magnitude of at most 100.
  Comparison, \<^verbatim>\<open>min\<close>, \<^verbatim>\<open>max\<close> and unary minus are exact on floats and are the
  operations of \<^typ>\<open>rat\<close>.
\<close>

type_synonym pyfloat = rat

definition pow2 :: "int \<Rightarrow> rat" where
  "pow2 e = (if 0 \<le> e then 2 ^ nat e else 1 / 2 ^ nat (- e))"

text \<open>The binary exponent of a positive rational: \<open>2\<^sup>e \<le> x < 2\<^sup>e\<^sup>+\<^sup>1\<close>.\<close>

definition expo :: "rat \<Rightarrow> int" where
  "expo x = (case quotient_of x of (p, q) \<Rightarrow>
     let d = bitlen p - bitlen q in if pow2 d \<le> x then d else d - 1)"

definition round_even :: "rat \<Rightarrow> int" where
  "round_even q = (let n = \<lfloor>q\<rfloor>; r = q - of_int n in
     if r < 1 / 2 then n else if 1 / 2 < r then n + 1 else if even n then n else n + 1)"

text \<open>The exponent of the unit in the last place of the binade of \<open>x\<close>.\<close>

definition ulp_exp :: "rat \<Rightarrow> int" where
  "ulp_exp x = max (expo x) (- 1022) - 52"

definition fl_pos :: "rat \<Rightarrow> rat" where
  "fl_pos x = of_int (round_even (x / pow2 (ulp_exp x))) * pow2 (ulp_exp x)"

text \<open>Rounding to binary64; the format is sign and magnitude.\<close>

definition fl :: "rat \<Rightarrow> pyfloat" where
  "fl x = (if x < 0 then - fl_pos (- x) else fl_pos x)"

definition is_double :: "rat \<Rightarrow> bool" where
  "is_double x \<longleftrightarrow> fl x = x"

definition fadd :: "pyfloat \<Rightarrow> pyfloat \<Rightarrow> pyfloat" where
  "fadd x y = fl (x + y)"

definition fsub :: "pyfloat \<Rightarrow> pyfloat \<Rightarrow> pyfloat" where
  "fsub x y = fl (x - y)"

definition fmul :: "pyfloat \<Rightarrow> pyfloat \<Rightarrow> pyfloat" where
  "fmul x y = fl (x * y)"

definition fdiv :: "pyfloat \<Rightarrow> pyfloat \<Rightarrow> pyfloat" where
  "fdiv x y = fl (x / y)"

section \<open>The keyboard controller\<close>

text \<open>The keys that \<^verbatim>\<open>parse_events\<close> looks at; \<open>K_OTHER\<close> is any other key.\<close>

datatype key =
    K_UP | K_DOWN | K_LEFT | K_RIGHT | K_ESCAPE | K_BACKSPACE | K_F1 | K_TAB
  | K_1 | K_2 | K_3 | K_4 | K_5 | K_6 | K_7 | K_8
  | K_a | K_b | K_c | K_d | K_f | K_g | K_h | K_j | K_m | K_n
  | K_o | K_p | K_q | K_r | K_s | K_v | K_w | K_x | K_OTHER

datatype sensor_position =
  Front | FrontLeft | FrontRight | Left | Right | BackLeft | BackRight | Back

datatype radiator_cover_state = Open | Close

text \<open>
  The fields of \<^verbatim>\<open>KeyboardControl\<close>. The source's private fields (\<^verbatim>\<open>_max_linear_speed\<close>
  and the like) lose their leading underscore. \<^verbatim>\<open>lights_value\<close> is a dictionary whose
  keys are the eight sensor positions from construction on, so it is a total function
  on \<^typ>\<open>sensor_position\<close>.
\<close>

record keyboard_control =
  linear_target_speed :: pyfloat
  angular_target_speed :: pyfloat
  front_drum_target_speed :: pyfloat
  front_arm_target_angle :: pyfloat
  back_arm_target_angle :: pyfloat
  back_drum_target_speed :: pyfloat
  linear_speed_increase :: pyfloat
  angular_speed_increase :: pyfloat
  drum_speed_increase :: pyfloat
  arm_angle_increase :: pyfloat
  max_linear_speed :: pyfloat
  max_angular_speed :: pyfloat
  max_arm_angle :: pyfloat
  max_drum_speed :: pyfloat
  lights_increase :: int
  lights_value :: "sensor_position \<Rightarrow> pyfloat"

text \<open>\<^verbatim>\<open>KeyboardControl.__init__\<close>; a decimal literal denotes the nearest binary64 value.\<close>

definition init :: keyboard_control where
  "init = \<lparr>
     linear_target_speed = 0,
     angular_target_speed = 0,
     front_drum_target_speed = 0,
     front_arm_target_angle = fl 0.79,
     back_arm_target_angle = fl 0.79,
     back_drum_target_speed = 0,
     linear_speed_increase = fl 0.01,
     angular_speed_increase = fl 0.01,
     drum_speed_increase = fl 0.017,
     arm_angle_increase = fl 0.017,
     max_linear_speed = fl 0.5,
     max_angular_speed = fl 0.5,
     max_arm_angle = fl 2.36,
     max_drum_speed = fl 0.17,
     lights_increase = 10,
     lights_value = (\<lambda>_. 0) \<rparr>"

text \<open>
  The calls \<^verbatim>\<open>parse_events\<close> makes on \<^verbatim>\<open>world.player\<close>, the simulator's actuator
  interface, in the order it makes them. The calls on the HUD, the camera manager and
  the recorder neither read nor write the controller and are left out; every call
  into the simulator client is taken to return.
\<close>

datatype command =
    apply_velocity_control pyfloat pyfloat
  | set_front_drums_target_speed pyfloat
  | set_front_arm_angle pyfloat
  | set_back_arm_angle pyfloat
  | set_back_drums_target_speed pyfloat
  | set_light_state sensor_position pyfloat
  | set_radiator_cover_state radiator_cover_state

datatype event_type = QUIT | KEYUP key | OTHER_EVENT

text \<open>
  One entry of \<^verbatim>\<open>pygame.event.get()\<close>, with what \<^verbatim>\<open>pygame.key.get_mods() & KMOD_SHIFT\<close>
  reads while that event is handled.
\<close>

record event =
  etype :: event_type
  shift_held :: bool

text \<open>
  What one call of \<^verbatim>\<open>parse_events\<close> reads from pygame: the queued events and the
  table of pressed keys (\<^verbatim>\<open>pygame.key.get_pressed()\<close>).
\<close>

record frame =
  events :: "event list"
  pressed :: "key \<Rightarrow> bool"

definition is_quit_shortcut :: "key \<Rightarrow> bool" where
  "is_quit_shortcut k \<longleftrightarrow> k = K_ESCAPE \<or> k = K_q"

text \<open>Lines 327 to 343: the sensor position a number key selects.\<close>

definition sensor_of_key :: "key \<Rightarrow> sensor_position option" where
  "sensor_of_key k =
     (if k = K_1 then Some Front
      else if k = K_2 then Some FrontLeft
      else if k = K_3 then Some FrontRight
      else if k = K_4 then Some Left
      else if k = K_5 then Some Right
      else if k = K_6 then Some BackLeft
      else if k = K_7 then Some BackRight
      else if k = K_8 then Some Back
      else None)"

text \<open>Lines 320 to 325: the radiator cover keys.\<close>

definition radiator_commands :: "key \<Rightarrow> command list" where
  "radiator_commands k =
     (if k = K_x then [set_radiator_cover_state Open]
      else if k = K_c then [set_radiator_cover_state Close]
      else [])"

text \<open>Lines 344 to 351: one light toggle.\<close>

definition toggle_light :: "keyboard_control \<Rightarrow> sensor_position \<Rightarrow> bool \<Rightarrow> keyboard_control \<times> command list" where
  "toggle_light c sensor shift =
     (let light_value =
        (if shift
         then max (min (fsub (lights_value c sensor) (of_int (lights_increase c))) 100) 0
         else max (min (fadd (lights_value c sensor) (of_int (lights_increase c))) 100) 0)
      in (c\<lparr>lights_value := (lights_value c)(sensor := light_value)\<rparr>,
          [set_light_state sensor (fdiv light_value 100)]))"

text \<open>
  Lines 290 to 351: a key-up event of a key that is not a quit shortcut. The first
  chain (restart, HUD, camera, recorder) touches neither the controller nor the player's
  actuators.
\<close>

definition keyup :: "keyboard_control \<Rightarrow> key \<Rightarrow> bool \<Rightarrow> keyboard_control \<times> command list" where
  "keyup c k shift =
     (case sensor_of_key k of
        None \<Rightarrow> (c, radiator_commands k)
      | Some sensor \<Rightarrow>
          (let (c', out) = toggle_light c sensor shift in (c', radiator_commands k @ out)))"

text \<open>
  Lines 286 to 351: the event loop. A quit event or a quit shortcut returns \<open>True\<close> at
  once: the events after it are not handled, and neither is the table of pressed keys.
\<close>

fun handle_events :: "keyboard_control \<Rightarrow> event list \<Rightarrow> bool \<times> keyboard_control \<times> command list" where
  "handle_events c [] = (False, c, [])"
| "handle_events c (e # es) =
     (case etype e of
        QUIT \<Rightarrow> (True, c, [])
      | OTHER_EVENT \<Rightarrow> handle_events c es
      | KEYUP k \<Rightarrow>
          if is_quit_shortcut k then (True, c, [])
          else (let (c1, out1) = keyup c k (shift_held e);
                    (quit, c2, out2) = handle_events c1 es
                in (quit, c2, out1 @ out2)))"

text \<open>Lines 355 to 360.\<close>

definition update_linear :: "keyboard_control \<Rightarrow> (key \<Rightarrow> bool) \<Rightarrow> keyboard_control" where
  "update_linear c keys =
     (if keys K_UP \<or> keys K_w then
        c\<lparr>linear_target_speed :=
            min (fadd (linear_target_speed c) (linear_speed_increase c)) (max_linear_speed c)\<rparr>
      else if keys K_DOWN \<or> keys K_s then
        c\<lparr>linear_target_speed :=
            max (fsub (linear_target_speed c) (linear_speed_increase c)) (- max_linear_speed c)\<rparr>
      else
        c\<lparr>linear_target_speed :=
            max (fsub (linear_target_speed c) (fmul 2 (linear_speed_increase c))) 0\<rparr>)"

text \<open>Lines 362 to 367.\<close>

definition update_angular :: "keyboard_control \<Rightarrow> (key \<Rightarrow> bool) \<Rightarrow> keyboard_control" where
  "update_angular c keys =
     (if keys K_LEFT \<or> keys K_a then
        c\<lparr>angular_target_speed :=
            max (fsub (angular_target_speed c) (angular_speed_increase c)) (- max_angular_speed c)\<rparr>
      else if keys K_RIGHT \<or> keys K_d then
        c\<lparr>angular_target_speed :=
            min (fadd (angular_target_speed c) (angular_speed_increase c)) (max_angular_speed c)\<rparr>
      else
        c\<lparr>angular_target_speed :=
            max (fsub (angular_target_speed c) (fmul 2 (angular_speed_increase c))) 0\<rparr>)"

text \<open>Lines 371 to 376.\<close>

definition update_front_drum :: "keyboard_control \<Rightarrow> (key \<Rightarrow> bool) \<Rightarrow> keyboard_control \<times> command list" where
  "update_front_drum c keys =
     (if keys K_f then
        (let v = min (fadd (front_drum_target_speed c) (drum_speed_increase c)) (max_drum_speed c)
         in (c\<lparr>front_drum_target_speed := v\<rparr>, [set_front_drums_target_speed v]))
      else if keys K_v then
        (let v = max (fsub (front_drum_target_speed c) (drum_speed_increase c)) (- max_drum_speed c)
         in (c\<lparr>front_drum_target_speed := v\<rparr>, [set_front_drums_target_speed v]))
      else (c, []))"

text \<open>Lines 377 to 382.\<close>

definition update_front_arm :: "keyboard_control \<Rightarrow> (key \<Rightarrow> bool) \<Rightarrow> keyboard_control \<times> command list" where
  "update_front_arm c keys =
     (if keys K_g then
        (let v = min (fadd (front_arm_target_angle c) (arm_angle_increase c)) (max_arm_angle c)
         in (c\<lparr>front_arm_target_angle := v\<rparr>, [set_front_arm_angle v]))
      else if keys K_b then
        (let v = max (fsub (front_arm_target_angle c) (arm_angle_increase c)) (- max_arm_angle c)
         in (c\<lparr>front_arm_target_angle := v\<rparr>, [set_front_arm_angle v]))
      else (c, []))"

text \<open>Lines 383 to 388.\<close>

definition update_back_arm :: "keyboard_control \<Rightarrow> (key \<Rightarrow> bool) \<Rightarrow> keyboard_control \<times> command list" where
  "update_back_arm c keys =
     (if keys K_h then
        (let v = min (fadd (back_arm_target_angle c) (arm_angle_increase c)) (max_arm_angle c)
         in (c\<lparr>back_arm_target_angle := v\<rparr>, [set_back_arm_angle v]))
      else if keys K_n then
        (let v = max (fsub (back_arm_target_angle c) (arm_angle_increase c)) (- max_arm_angle c)
         in (c\<lparr>back_arm_target_angle := v\<rparr>, [set_back_arm_angle v]))
      else (c, []))"

text \<open>Lines 389 to 394.\<close>

definition update_back_drum :: "keyboard_control \<Rightarrow> (key \<Rightarrow> bool) \<Rightarrow> keyboard_control \<times> command list" where
  "update_back_drum c keys =
     (if keys K_j then
        (let v = min (fadd (back_drum_target_speed c) (drum_speed_increase c)) (max_drum_speed c)
         in (c\<lparr>back_drum_target_speed := v\<rparr>, [set_back_drums_target_speed v]))
      else if keys K_m then
        (let v = max (fsub (back_drum_target_speed c) (drum_speed_increase c)) (- max_drum_speed c)
         in (c\<lparr>back_drum_target_speed := v\<rparr>, [set_back_drums_target_speed v]))
      else (c, []))"

text \<open>Lines 353 to 394: the per-frame ramping of the six target values.\<close>

definition update_targets :: "keyboard_control \<Rightarrow> (key \<Rightarrow> bool) \<Rightarrow> keyboard_control \<times> command list" where
  "update_targets c keys =
     (let c1 = update_linear c keys;
          c2 = update_angular c1 keys;
          out0 = [apply_velocity_control (linear_target_speed c2) (angular_target_speed c2)];
          (c3, out1) = update_front_drum c2 keys;
          (c4, out2) = update_front_arm c3 keys;
          (c5, out3) = update_back_arm c4 keys;
          (c6, out4) = update_back_drum c5 keys
      in (c6, out0 @ out1 @ out2 @ out3 @ out4))"

text \<open>
  \<^verbatim>\<open>KeyboardControl.parse_events\<close>: the result is the returned flag (\<open>True\<close> to leave
  the game loop; the source's implicit \<^verbatim>\<open>None\<close> is \<open>False\<close>), the controller
  afterwards and the commands sent to the player.
\<close>

definition parse_events :: "keyboard_control \<Rightarrow> frame \<Rightarrow> bool \<times> keyboard_control \<times> command list" where
  "parse_events c fr =
     (case handle_events c (events fr) of
        (True, c1, out1) \<Rightarrow> (True, c1, out1)
      | (False, c1, out1) \<Rightarrow>
          (let (c2, out2) = update_targets c1 (pressed fr) in (False, c2, out1 @ out2)))"

text \<open>
  The loop of \<^verbatim>\<open>game_loop\<close> (lines 284 to 293 of its body), run on the frames the
  environment supplies: the controller after the last of them, or after the frame on
  which \<^verbatim>\<open>parse_events\<close> returned \<open>True\<close>.
\<close>

fun game_loop :: "keyboard_control \<Rightarrow> frame list \<Rightarrow> keyboard_control" where
  "game_loop c [] = c"
| "game_loop c (fr # frs) =
     (case parse_events c fr of
        (True, c', out) \<Rightarrow> c'
      | (False, c', out) \<Rightarrow> game_loop c' frs)"

section \<open>The formulas of the specification, and frames\<close>

text \<open>
  The three update formulas as the specification writes them, with Python's float
  arithmetic: \<^verbatim>\<open>min(current_value + increase_step, max_value)\<close>,
  \<^verbatim>\<open>max(current_value - increase_step, min_value)\<close> and
  \<^verbatim>\<open>max(current_value - 2*decay_step, resting_value)\<close>. The source has no function for
  them; the theorems below compare what \<^verbatim>\<open>parse_events\<close> computes with them.
\<close>

definition ramp_up :: "pyfloat \<Rightarrow> pyfloat \<Rightarrow> pyfloat \<Rightarrow> pyfloat" where
  "ramp_up increase_step max_value current_value = min (fadd current_value increase_step) max_value"

definition ramp_down :: "pyfloat \<Rightarrow> pyfloat \<Rightarrow> pyfloat \<Rightarrow> pyfloat" where
  "ramp_down increase_step min_value current_value = max (fsub current_value increase_step) min_value"

definition decay :: "pyfloat \<Rightarrow> pyfloat \<Rightarrow> pyfloat \<Rightarrow> pyfloat" where
  "decay decay_step resting_value current_value =
     max (fsub current_value (fmul 2 decay_step)) resting_value"


text \<open>An event on which \<^verbatim>\<open>parse_events\<close> returns \<open>True\<close>.\<close>

definition quit_event :: "event \<Rightarrow> bool" where
  "quit_event e = (case etype e of QUIT \<Rightarrow> True | KEYUP k \<Rightarrow> is_quit_shortcut k | OTHER_EVENT \<Rightarrow> False)"


text \<open>A frame with no queued event on which exactly the keys of \<open>ks\<close> are pressed.\<close>

definition held :: "key list \<Rightarrow> frame" where
  "held ks = \<lparr>events = [], pressed = (\<lambda>k. k \<in> set ks)\<rparr>"


text \<open>Both keys of every channel pressed at once.\<close>

definition all_pairs :: frame where
  "all_pairs = held [K_UP, K_DOWN, K_LEFT, K_RIGHT, K_f, K_v, K_g, K_b, K_h, K_n, K_j, K_m]"


text \<open>
  Each value between its clamp bounds, which are minus the channel's maximum and the
  maximum; and the constants of the controller as \<^verbatim>\<open>__init__\<close> sets them.
\<close>

definition within_bounds :: "keyboard_control \<Rightarrow> bool" where
  "within_bounds c \<longleftrightarrow>
     - max_linear_speed c \<le> linear_target_speed c \<and> linear_target_speed c \<le> max_linear_speed c \<and>
     - max_angular_speed c \<le> angular_target_speed c \<and> angular_target_speed c \<le> max_angular_speed c \<and>
     - max_drum_speed c \<le> front_drum_target_speed c \<and> front_drum_target_speed c \<le> max_drum_speed c \<and>
     - max_arm_angle c \<le> front_arm_target_angle c \<and> front_arm_target_angle c \<le> max_arm_angle c \<and>
     - max_arm_angle c \<le> back_arm_target_angle c \<and> back_arm_target_angle c \<le> max_arm_angle c \<and>
     - max_drum_speed c \<le> back_drum_target_speed c \<and> back_drum_target_speed c \<le> max_drum_speed c"

definition configured :: "keyboard_control \<Rightarrow> bool" where
  "configured c \<longleftrightarrow>
     linear_speed_increase c = linear_speed_increase init \<and>
     angular_speed_increase c = angular_speed_increase init \<and>
     drum_speed_increase c = drum_speed_increase init \<and>
     arm_angle_increase c = arm_angle_increase init \<and>
     max_linear_speed c = max_linear_speed init \<and>
     max_angular_speed c = max_angular_speed init \<and>
     max_arm_angle c = max_arm_angle init \<and>
     max_drum_speed c = max_drum_speed init \<and>
     lights_increase c = lights_increase init"


text \<open>The percentages a light can be set to by steps of ten from zero.\<close>

definition light_levels :: "pyfloat set" where
  "light_levels = {0, 10, 20, 30, 40, 50, 60, 70, 80, 90, 100}"


text \<open>A frame whose only queued event is the release of key \<open>k\<close>, with no key pressed.\<close>

definition toggle_frame :: "key \<Rightarrow> bool \<Rightarrow> frame" where
  "toggle_frame k shift = \<lparr>events = [\<lparr>etype = KEYUP k, shift_held = shift\<rparr>], pressed = (\<lambda>k. False)\<rparr>"


text \<open>
  A frame on which \<^verbatim>\<open>parse_events\<close> does not return \<open>True\<close> and neither key of the
  linear speed, or of the angular speed, is pressed.
\<close>

definition linear_released :: "frame \<Rightarrow> bool" where
  "linear_released fr \<longleftrightarrow> \<not> list_ex quit_event (events fr) \<and>
     \<not> pressed fr K_UP \<and> \<not> pressed fr K_w \<and> \<not> pressed fr K_DOWN \<and> \<not> pressed fr K_s"

definition angular_released :: "frame \<Rightarrow> bool" where
  "angular_released fr \<longleftrightarrow> \<not> list_ex quit_event (events fr) \<and>
     \<not> pressed fr K_LEFT \<and> \<not> pressed fr K_a \<and> \<not> pressed fr K_RIGHT \<and> \<not> pressed fr K_d"


text \<open>
  A frame on which \<^verbatim>\<open>parse_events\<close> does not return \<open>True\<close> and takes the increase
  branch of a channel. For the angular speed that needs left and a released, since the
  source tests them first.
\<close>

definition linear_increase :: "frame \<Rightarrow> bool" where
  "linear_increase fr \<longleftrightarrow> \<not> list_ex quit_event (events fr) \<and> (pressed fr K_UP \<or> pressed fr K_w)"

definition angular_increase :: "frame \<Rightarrow> bool" where
  "angular_increase fr \<longleftrightarrow> \<not> list_ex quit_event (events fr) \<and>
     \<not> pressed fr K_LEFT \<and> \<not> pressed fr K_a \<and> (pressed fr K_RIGHT \<or> pressed fr K_d)"

definition front_drum_increase :: "frame \<Rightarrow> bool" where
  "front_drum_increase fr \<longleftrightarrow> \<not> list_ex quit_event (events fr) \<and> pressed fr K_f"

definition front_arm_increase :: "frame \<Rightarrow> bool" where
  "front_arm_increase fr \<longleftrightarrow> \<not> list_ex quit_event (events fr) \<and> pressed fr K_g"

definition back_arm_increase :: "frame \<Rightarrow> bool" where
  "back_arm_increase fr \<longleftrightarrow> \<not> list_ex quit_event (events fr) \<and> pressed fr K_h"

definition back_drum_increase :: "frame \<Rightarrow> bool" where
  "back_drum_increase fr \<longleftrightarrow> \<not> list_ex quit_event (events fr) \<and> pressed fr K_j"


text \<open>The controller after three frames with the up and the right key held.\<close>

definition after_three :: keyboard_control where
  "after_three = game_loop init (replicate 3 (held [K_UP, K_RIGHT]))"





section \<open>The frame bound of a run of increases\<close>



subsection \<open>Floats on the grid of \<open>2\<^sup>-\<^sup>5\<^sup>6\<close>\<close>

text \<open>
  The drum speeds and the arm angles are multiples of \<open>2\<^sup>-\<^sup>5\<^sup>6\<close> below 4 in magnitude.
  On these, rounding to binary64 is rounding an integer to a multiple of 1, 2, 4, 8, 16
  or 32, by the binade.
\<close>

definition of56 :: "int \<Rightarrow> pyfloat" where
  "of56 z = of_int z / 2 ^ 56"













































































































































































































































































section \<open>Properties of the rounding\<close>

lemma pow2_powi: "pow2 e = 2 powi e"
  by (simp add: pow2_def power_int_def inverse_eq_divide power_one_over)

lemma pow2_pos [simp]: "0 < pow2 e"
  by (simp add: pow2_powi)

lemma pow2_nonneg [simp]: "0 \<le> pow2 e"
  using pow2_pos [of e] by linarith

lemma pow2_nz [simp]: "pow2 e \<noteq> 0"
  using pow2_pos [of e] by linarith

lemma pow2_add: "pow2 (a + b) = pow2 a * pow2 b"
  by (simp add: pow2_powi power_int_add)

lemma pow2_mono: "a \<le> b \<Longrightarrow> pow2 a \<le> pow2 b"
  by (simp add: pow2_powi power_int_increasing)

lemma pow2_less_iff: "pow2 a < pow2 b \<longleftrightarrow> a < b"
proof
  assume "pow2 a < pow2 b"
  then show "a < b" using pow2_mono [of b a] by (cases "a < b") auto
next
  assume "a < b"
  then show "pow2 a < pow2 b" by (simp add: pow2_powi power_int_strict_increasing)
qed

lemma pow2_nat: "0 \<le> e \<Longrightarrow> pow2 e = of_int (2 ^ nat e)"
  by (simp add: pow2_def)

lemma pow2_div: "pow2 a / pow2 b = pow2 (a - b)"
proof -
  have "pow2 a = pow2 (a - b) * pow2 b" using pow2_add [of "a - b" b] by simp
  moreover have "pow2 b \<noteq> 0" using pow2_pos [of b] by linarith
  ultimately show ?thesis by (simp add: nonzero_eq_divide_eq)
qed

lemma pow2_plus_53: "pow2 (a + 53) = of_int (2 ^ 53) * pow2 a"
proof -
  have "pow2 53 = of_int (2 ^ 53)" by (simp add: pow2_def)
  then show ?thesis using pow2_add [of 53 a] by (simp only: add.commute)
qed

lemma pow2_plus_52: "pow2 (a + 52) = of_int (2 ^ 52) * pow2 a"
proof -
  have "pow2 52 = of_int (2 ^ 52)" by (simp add: pow2_def)
  then show ?thesis using pow2_add [of 52 a] by (simp only: add.commute)
qed

subsection \<open>Rounding to an integer\<close>

lemma round_even_floor: "\<lfloor>q\<rfloor> \<le> round_even q \<and> round_even q \<le> \<lfloor>q\<rfloor> + 1"
  by (simp add: round_even_def Let_def)

lemma round_even_of_int [simp]: "round_even (of_int n) = n"
  by (simp add: round_even_def)

lemma round_even_mono:
  assumes "q \<le> q'"
  shows "round_even q \<le> round_even q'"
proof (cases "\<lfloor>q\<rfloor> = \<lfloor>q'\<rfloor>")
  case True
  with assms show ?thesis by (auto simp: round_even_def Let_def)
next
  case False
  with assms have "\<lfloor>q\<rfloor> + 1 \<le> \<lfloor>q'\<rfloor>" using floor_mono [of q q'] by linarith
  then show ?thesis
    using round_even_floor [of q] round_even_floor [of q'] by linarith
qed


subsection \<open>Rounding onto a grid\<close>

lemma grid_le:
  assumes "0 < u" "x \<le> of_int m * u"
  shows "of_int (round_even (x / u)) * u \<le> of_int m * u"
proof -
  from assms have "x / u \<le> of_int m" by (simp add: pos_divide_le_eq)
  then have "round_even (x / u) \<le> m" using round_even_mono [of "x / u" "of_int m"] by simp
  then have "(of_int (round_even (x / u)) :: rat) \<le> of_int m" by simp
  with assms(1) show ?thesis by (simp add: mult_right_mono)
qed

lemma grid_ge:
  assumes "0 < u" "of_int m * u \<le> x"
  shows "of_int m * u \<le> of_int (round_even (x / u)) * u"
proof -
  from assms have "of_int m \<le> x / u" by (simp add: pos_le_divide_eq)
  then have "m \<le> round_even (x / u)" using round_even_mono [of "of_int m" "x / u"] by simp
  then have "(of_int m :: rat) \<le> of_int (round_even (x / u))" by simp
  with assms(1) show ?thesis by (simp add: mult_right_mono)
qed

subsection \<open>The binary exponent\<close>

lemma bitlen_pow2:
  assumes "0 < p"
  shows "pow2 (bitlen p - 1) \<le> of_int p" "(of_int p :: rat) < pow2 (bitlen p)"
proof -
  from assms have b: "1 \<le> bitlen p" by (simp add: bitlen_alt_def)
  have "2 ^ nat (bitlen p - 1) \<le> p" "p < 2 ^ nat (bitlen p)"
    using bitlen_bounds [OF assms] by auto
  then have "(of_int (2 ^ nat (bitlen p - 1)) :: rat) \<le> of_int p" "(of_int p :: rat) < of_int (2 ^ nat (bitlen p))"
    by (simp_all only: of_int_le_iff of_int_less_iff)
  then show "pow2 (bitlen p - 1) \<le> of_int p" "(of_int p :: rat) < pow2 (bitlen p)"
    using b by (simp_all add: pow2_nat)
qed

lemma expo_bounds:
  assumes "0 < x"
  shows "pow2 (expo x) \<le> x \<and> x < pow2 (expo x + 1)"
proof -
  obtain p q where pq: "quotient_of x = (p, q)" by force
  then have q: "0 < q" and x: "x = of_int p / of_int q"
    using quotient_of_denom_pos quotient_of_div by auto
  with assms have p: "0 < p" by (simp add: zero_less_divide_iff)
  define d where "d = bitlen p - bitlen q"
  have lo: "pow2 (d - 1) < x"
  proof -
    have "d - 1 = (bitlen p - 1) - bitlen q" by (simp add: d_def)
    then have "pow2 (d - 1) = pow2 (bitlen p - 1) / pow2 (bitlen q)"
      by (simp only: pow2_div)
    also have "\<dots> \<le> of_int p / pow2 (bitlen q)"
      using bitlen_pow2(1) [OF p] pow2_pos [of "bitlen q"]
      by (intro divide_right_mono) linarith+
    also have "\<dots> < of_int p / of_int q"
      using bitlen_pow2(2) [OF q] p q pow2_pos [of "bitlen q"]
      by (intro divide_strict_left_mono) (simp_all del: pow2_pos)
    finally show ?thesis using x by simp
  qed
  have hi: "x < pow2 (d + 1)"
  proof -
    have "x = of_int p / of_int q" by (rule x)
    also have "\<dots> < pow2 (bitlen p) / of_int q"
      using bitlen_pow2(2) [OF p] q
      by (intro divide_strict_right_mono) simp_all
    also have "\<dots> \<le> pow2 (bitlen p) / pow2 (bitlen q - 1)"
      using bitlen_pow2(1) [OF q] q pow2_pos [of "bitlen p"] pow2_pos [of "bitlen q - 1"]
      by (intro divide_left_mono) (simp_all del: pow2_pos add: less_imp_le)
    also have "\<dots> = pow2 (d + 1)"
    proof -
      have "bitlen p - (bitlen q - 1) = d + 1" by (simp add: d_def)
      then show ?thesis by (simp only: pow2_div)
    qed
    finally show ?thesis .
  qed
  have e: "expo x = (if pow2 d \<le> x then d else d - 1)"
    by (simp add: expo_def pq d_def Let_def)
  show ?thesis
  proof (cases "pow2 d \<le> x")
    case True
    with e hi show ?thesis by simp
  next
    case False
    with e lo show ?thesis by simp
  qed
qed

lemma expo_le:
  assumes "0 < x" "x < pow2 (e + 1)"
  shows "expo x \<le> e"
proof -
  have "pow2 (expo x) < pow2 (e + 1)" using expo_bounds [OF assms(1)] assms(2) by linarith
  then show ?thesis by (simp add: pow2_less_iff)
qed

lemma expo_ge:
  assumes "0 < x" "pow2 e \<le> x"
  shows "e \<le> expo x"
proof -
  have "pow2 e < pow2 (expo x + 1)" using expo_bounds [OF assms(1)] assms(2) by linarith
  then show ?thesis by (simp add: pow2_less_iff)
qed

lemma expo_mono: "0 < x \<Longrightarrow> x \<le> y \<Longrightarrow> expo x \<le> expo y"
  using expo_bounds [of x] expo_ge [of y "expo x"] by linarith

lemma ulp_exp_mono: "0 < x \<Longrightarrow> x \<le> y \<Longrightarrow> ulp_exp x \<le> ulp_exp y"
  using expo_mono [of x y] by (simp add: ulp_exp_def)


subsection \<open>Rounding a magnitude\<close>

lemma fl_pos_0 [simp]: "fl_pos 0 = 0"
  by (simp add: fl_pos_def round_even_def)

lemma fl_pos_nonneg: "0 \<le> x \<Longrightarrow> 0 \<le> fl_pos x"
  using grid_ge [of "pow2 (ulp_exp x)" 0 x] by (simp add: fl_pos_def)

lemma expo_ulp: "expo x \<le> ulp_exp x + 52"
  by (simp add: ulp_exp_def)

text \<open>A value on the grid of a binade at or above its own is a fixed point.\<close>

lemma fl_pos_grid:
  assumes "ulp_exp z \<le> a" "z = of_int n * pow2 a"
  shows "fl_pos z = z"
proof -
  define b where "b = ulp_exp z"
  have "0 \<le> a - b" using assms(1) by (simp add: b_def)
  then have "pow2 (a - b) = of_int (2 ^ nat (a - b))" by (rule pow2_nat)
  moreover have "z / pow2 b = of_int n * (pow2 a / pow2 b)"
    by (simp add: assms(2))
  ultimately have "z / pow2 b = of_int (n * 2 ^ nat (a - b))"
    by (simp only: pow2_div of_int_mult)
  then have "round_even (z / pow2 b) = n * 2 ^ nat (a - b)"
    by (simp only: round_even_of_int)
  then have "fl_pos z = of_int (n * 2 ^ nat (a - b)) * pow2 b"
    by (simp add: fl_pos_def b_def)
  also have "\<dots> = z / pow2 b * pow2 b"
    using \<open>z / pow2 b = of_int (n * 2 ^ nat (a - b))\<close> by simp
  also have "\<dots> = z" using pow2_pos [of b] by (simp del: pow2_pos)
  finally show ?thesis .
qed

lemma fl_pos_upper:
  assumes "0 < x"
  shows "fl_pos x \<le> pow2 (ulp_exp x + 53)"
proof -
  define a where "a = ulp_exp x"
  have "x < pow2 (expo x + 1)" using expo_bounds [OF assms] by simp
  also have "\<dots> \<le> pow2 (a + 53)" using expo_ulp [of x] by (intro pow2_mono) (simp add: a_def)
  also have "\<dots> = of_int (2 ^ 53) * pow2 a" by (rule pow2_plus_53)
  finally have "x \<le> of_int (2 ^ 53) * pow2 a" by simp
  then have "of_int (round_even (x / pow2 a)) * pow2 a \<le> of_int (2 ^ 53) * pow2 a"
    by (intro grid_le) simp_all
  also have "of_int (2 ^ 53) * pow2 a = pow2 (a + 53)" by (rule pow2_plus_53 [symmetric])
  finally show ?thesis by (simp add: fl_pos_def a_def)
qed

lemma fl_pos_idem:
  assumes "0 \<le> x"
  shows "fl_pos (fl_pos x) = fl_pos x"
proof (cases "fl_pos x = 0")
  case True
  then show ?thesis by simp
next
  case False
  with assms have x: "0 < x" by (cases "x = 0") auto
  define a where "a = ulp_exp x"
  define z where "z = fl_pos x"
  have z: "0 < z" using fl_pos_nonneg [OF assms] False by (simp add: z_def)
  have le: "z \<le> pow2 (a + 53)" using fl_pos_upper [OF x] by (simp add: z_def a_def)
  have low: "- 1074 \<le> a" by (simp add: a_def ulp_exp_def)
  show ?thesis
  proof (cases "z = pow2 (a + 53)")
    case True
    have "z < pow2 (a + 53 + 1)" using True by (simp add: pow2_less_iff)
    then have "expo z \<le> a + 53" using z by (intro expo_le)
    then have "ulp_exp z \<le> a + 1" using low by (simp add: ulp_exp_def)
    moreover have "z = of_int (2 ^ 52) * pow2 (a + 1)"
    proof -
      have "a + 53 = (a + 1) + 52" by simp
      then show ?thesis using True by (simp only: pow2_plus_52)
    qed
    ultimately have "fl_pos z = z" by (rule fl_pos_grid)
    then show ?thesis by (simp add: z_def)
  next
    case False
    have "a + 52 + 1 = a + 53" by simp
    with False le have "z < pow2 (a + 52 + 1)" by (simp only: less_le) simp
    then have "expo z \<le> a + 52" using z by (intro expo_le)
    then have "ulp_exp z \<le> a" using low by (simp add: ulp_exp_def)
    moreover have "z = of_int (round_even (x / pow2 a)) * pow2 a"
      by (simp add: z_def fl_pos_def a_def)
    ultimately have "fl_pos z = z" by (rule fl_pos_grid)
    then show ?thesis by (simp add: z_def)
  qed
qed

lemma fl_pos_mono:
  assumes "0 \<le> x" "x \<le> y"
  shows "fl_pos x \<le> fl_pos y"
proof (cases "x = 0")
  case True
  then show ?thesis using fl_pos_nonneg [of y] assms by simp
next
  case False
  with assms have x: "0 < x" and y: "0 < y" by simp_all
  define a where "a = ulp_exp x"
  define b where "b = ulp_exp y"
  have ab: "a \<le> b" using ulp_exp_mono [OF x assms(2)] by (simp add: a_def b_def)
  show ?thesis
  proof (cases "a = b")
    case True
    have "x / pow2 b \<le> y / pow2 b" using assms(2) by (intro divide_right_mono) simp_all
    then have "round_even (x / pow2 b) \<le> round_even (y / pow2 b)" by (rule round_even_mono)
    then have "(of_int (round_even (x / pow2 b)) :: rat) \<le> of_int (round_even (y / pow2 b))" by simp
    then have "of_int (round_even (x / pow2 b)) * pow2 b \<le> of_int (round_even (y / pow2 b)) * pow2 b"
      by (intro mult_right_mono) simp_all
    then show ?thesis using True by (simp add: fl_pos_def a_def b_def)
  next
    case False
    with ab have lt: "a < b" by simp
    define e where "e = expo y"
    have be: "b = e - 52" and ex: "expo x < e"
      using lt unfolding a_def b_def e_def ulp_exp_def by linarith+
    have "0 \<le> e - a" using lt be by simp
    then have pe: "pow2 e = of_int (2 ^ nat (e - a)) * pow2 a"
      using pow2_add [of "e - a" a] by (simp add: pow2_nat)
    have pe': "pow2 e = of_int (2 ^ 52) * pow2 b"
    proof -
      have "e = b + 52" using be by simp
      then show ?thesis by (simp only: pow2_plus_52)
    qed
    have "x < pow2 (expo x + 1)" using expo_bounds [OF x] by simp
    also have "\<dots> \<le> pow2 e" using ex by (intro pow2_mono) simp
    finally have "x \<le> of_int (2 ^ nat (e - a)) * pow2 a" using pe by simp
    then have "of_int (round_even (x / pow2 a)) * pow2 a \<le> of_int (2 ^ nat (e - a)) * pow2 a"
      by (intro grid_le) simp_all
    then have 1: "fl_pos x \<le> pow2 e" using pe by (simp add: fl_pos_def a_def)
    have "pow2 e \<le> y" using expo_bounds [OF y] by (simp add: e_def)
    then have "of_int (2 ^ 52) * pow2 b \<le> y" using pe' by simp
    then have "of_int (2 ^ 52) * pow2 b \<le> of_int (round_even (y / pow2 b)) * pow2 b"
      by (intro grid_ge) simp_all
    then have 2: "pow2 e \<le> fl_pos y" using pe' by (simp add: fl_pos_def b_def)
    from 1 2 show ?thesis by linarith
  qed
qed


subsection \<open>Rounding a signed value\<close>

lemma fl_0 [simp]: "fl 0 = 0"
  by (simp add: fl_def)

lemma fl_minus: "fl (- x) = - fl x"
  by (simp add: fl_def)

lemma fl_nonneg: "0 \<le> x \<Longrightarrow> 0 \<le> fl x"
  by (simp add: fl_def fl_pos_nonneg)

lemma fl_nonpos: "x \<le> 0 \<Longrightarrow> fl x \<le> 0"
  using fl_pos_nonneg [of "- x"] by (simp add: fl_def)

lemma fl_mono:
  assumes "x \<le> y"
  shows "fl x \<le> fl y"
proof (cases "0 \<le> x")
  case True
  with assms show ?thesis by (simp add: fl_def fl_pos_mono)
next
  case False
  show ?thesis
  proof (cases "0 \<le> y")
    case True
    have "fl x \<le> 0" using False by (intro fl_nonpos) simp
    also have "0 \<le> fl y" using True by (rule fl_nonneg)
    finally show ?thesis .
  next
    case y: False
    have "fl_pos (- y) \<le> fl_pos (- x)" using assms y by (intro fl_pos_mono) simp_all
    with False y show ?thesis by (simp add: fl_def)
  qed
qed

lemma fl_idem [simp]: "fl (fl x) = fl x"
proof (cases "x < 0")
  case True
  then have "0 \<le> fl_pos (- x)" by (intro fl_pos_nonneg) simp
  then have "fl (- fl_pos (- x)) = - fl_pos (fl_pos (- x))"
    by (cases "fl_pos (- x) = 0") (simp_all add: fl_def)
  also have "\<dots> = - fl_pos (- x)" using True by (simp add: fl_pos_idem)
  finally show ?thesis using True by (simp add: fl_def)
next
  case False
  then have "0 \<le> fl_pos x" by (intro fl_pos_nonneg) simp
  with False show ?thesis by (simp add: fl_def fl_pos_idem)
qed

lemma is_double_fl [simp]: "is_double (fl x)"
  by (simp add: is_double_def)


subsection \<open>Evaluating the rounding\<close>

lemma expo_eq:
  assumes "pow2 e \<le> x" "x < pow2 (e + 1)"
  shows "expo x = e"
proof -
  have x: "0 < x" using assms(1) pow2_pos [of e] by linarith
  have "expo x \<le> e" using x assms(2) by (rule expo_le)
  moreover have "e \<le> expo x" using x assms(1) by (rule expo_ge)
  ultimately show ?thesis by simp
qed

text \<open>Rounding a value whose binade is known.\<close>

lemma fl_at:
  assumes "pow2 e \<le> x" "x < pow2 (e + 1)" "- 1022 \<le> e"
  shows "fl x = of_int (round_even (x / pow2 (e - 52))) * pow2 (e - 52)"
proof -
  have x: "0 < x" using assms(1) pow2_pos [of e] by linarith
  have "ulp_exp x = e - 52" using expo_eq [OF assms(1,2)] assms(3) by (simp add: ulp_exp_def)
  then show ?thesis using x by (simp add: fl_def fl_pos_def)
qed

text \<open>Rounding a fraction of integers, in integer arithmetic.\<close>

lemma round_even_fraction:
  assumes "0 < b"
  shows "round_even (of_int a / of_int b) =
    (if 2 * (a mod b) < b then a div b
     else if b < 2 * (a mod b) then a div b + 1
     else if even (a div b) then a div b else a div b + 1)"
proof -
  have fl: "\<lfloor>(of_int a / of_int b :: rat)\<rfloor> = a div b" by (rule floor_divide_of_int_eq)
  have "(of_int a :: rat) = of_int (a div b) * of_int b + of_int (a mod b)"
    by (metis of_int_add of_int_mult div_mult_mod_eq)
  then have r: "(of_int a / of_int b :: rat) - of_int (a div b) = of_int (a mod b) / of_int b"
    using assms by (simp add: field_simps)
  have lt: "(of_int (a mod b) / of_int b :: rat) < 1 / 2 \<longleftrightarrow> 2 * (a mod b) < b"
  proof -
    have "(of_int (a mod b) / of_int b :: rat) < 1 / 2 \<longleftrightarrow> (of_int (2 * (a mod b)) :: rat) < of_int b"
      using assms by (simp add: field_simps)
    then show ?thesis by (simp only: of_int_less_iff)
  qed
  have gt: "1 / 2 < (of_int (a mod b) / of_int b :: rat) \<longleftrightarrow> b < 2 * (a mod b)"
  proof -
    have "1 / 2 < (of_int (a mod b) / of_int b :: rat) \<longleftrightarrow> (of_int b :: rat) < of_int (2 * (a mod b))"
      using assms by (simp add: field_simps)
    then show ?thesis by (simp only: of_int_less_iff)
  qed
  show ?thesis
    unfolding round_even_def Let_def fl r lt gt ..
qed

lemma round_even_numeral_fraction:
  "round_even (numeral a / numeral b) =
    (if 2 * (numeral a mod numeral b) < (numeral b :: int) then numeral a div numeral b
     else if (numeral b :: int) < 2 * (numeral a mod numeral b) then numeral a div numeral b + 1
     else if even (numeral a div numeral b :: int) then numeral a div numeral b
     else numeral a div numeral b + 1)"
  using round_even_fraction [of "numeral b" "numeral a"] by simp

lemma round_even_numeral: "round_even (numeral a) = numeral a"
  using round_even_of_int [of "numeral a"] by simp



text \<open>The binades the controller's values lie in, from \<open>2\<^sup>-\<^sup>8\<close> to \<open>2\<^sup>7\<close>.\<close>

lemma fl_binade:
  "1 / 256 \<le> x \<Longrightarrow> x < 1 / 128 \<Longrightarrow> fl x = of_int (round_even (x * 2 ^ 60)) / 2 ^ 60"
  "1 / 128 \<le> x \<Longrightarrow> x < 1 / 64 \<Longrightarrow> fl x = of_int (round_even (x * 2 ^ 59)) / 2 ^ 59"
  "1 / 64 \<le> x \<Longrightarrow> x < 1 / 32 \<Longrightarrow> fl x = of_int (round_even (x * 2 ^ 58)) / 2 ^ 58"
  "1 / 32 \<le> x \<Longrightarrow> x < 1 / 16 \<Longrightarrow> fl x = of_int (round_even (x * 2 ^ 57)) / 2 ^ 57"
  "1 / 16 \<le> x \<Longrightarrow> x < 1 / 8 \<Longrightarrow> fl x = of_int (round_even (x * 2 ^ 56)) / 2 ^ 56"
  "1 / 8 \<le> x \<Longrightarrow> x < 1 / 4 \<Longrightarrow> fl x = of_int (round_even (x * 2 ^ 55)) / 2 ^ 55"
  "1 / 4 \<le> x \<Longrightarrow> x < 1 / 2 \<Longrightarrow> fl x = of_int (round_even (x * 2 ^ 54)) / 2 ^ 54"
  "1 / 2 \<le> x \<Longrightarrow> x < 1 \<Longrightarrow> fl x = of_int (round_even (x * 2 ^ 53)) / 2 ^ 53"
  "1 \<le> x \<Longrightarrow> x < 2 \<Longrightarrow> fl x = of_int (round_even (x * 2 ^ 52)) / 2 ^ 52"
  "2 \<le> x \<Longrightarrow> x < 4 \<Longrightarrow> fl x = of_int (round_even (x * 2 ^ 51)) / 2 ^ 51"
  "4 \<le> x \<Longrightarrow> x < 8 \<Longrightarrow> fl x = of_int (round_even (x * 2 ^ 50)) / 2 ^ 50"
  "8 \<le> x \<Longrightarrow> x < 16 \<Longrightarrow> fl x = of_int (round_even (x * 2 ^ 49)) / 2 ^ 49"
  "16 \<le> x \<Longrightarrow> x < 32 \<Longrightarrow> fl x = of_int (round_even (x * 2 ^ 48)) / 2 ^ 48"
  "32 \<le> x \<Longrightarrow> x < 64 \<Longrightarrow> fl x = of_int (round_even (x * 2 ^ 47)) / 2 ^ 47"
  "64 \<le> x \<Longrightarrow> x < 128 \<Longrightarrow> fl x = of_int (round_even (x * 2 ^ 46)) / 2 ^ 46"
  using fl_at [of "- 8" x] fl_at [of "- 7" x] fl_at [of "- 6" x] fl_at [of "- 5" x] fl_at [of "- 4" x] fl_at [of "- 3" x] fl_at [of "- 2" x] fl_at [of "- 1" x] fl_at [of "0" x] fl_at [of "1" x] fl_at [of "2" x] fl_at [of "3" x] fl_at [of "4" x] fl_at [of "5" x] fl_at [of "6" x]
  by (simp_all add: pow2_def)

lemmas fl_eval = fl_binade round_even_numeral_fraction round_even_numeral fl_minus
  fadd_def fsub_def fmul_def fdiv_def

text \<open>The constants of \<^verbatim>\<open>KeyboardControl.__init__\<close> as binary64 values.\<close>

lemma init_constants:
  "fl (1 / 100) = 5764607523034235 / 576460752303423488"
  "fl (17 / 1000) = 1224979098644775 / 72057594037927936"
  "fl (17 / 100) = 6124895493223875 / 36028797018963968"
  "fl (1 / 2) = 1 / 2"
  "fl (79 / 100) = 889460926405673 / 1125899906842624"
  "fl (59 / 25) = 5314247560297185 / 2251799813685248"
  by (simp_all add: fl_eval)

lemma init_eval:
  "init = \<lparr>
     linear_target_speed = 0,
     angular_target_speed = 0,
     front_drum_target_speed = 0,
     front_arm_target_angle = 889460926405673 / 1125899906842624,
     back_arm_target_angle = 889460926405673 / 1125899906842624,
     back_drum_target_speed = 0,
     linear_speed_increase = 5764607523034235 / 576460752303423488,
     angular_speed_increase = 5764607523034235 / 576460752303423488,
     drum_speed_increase = 1224979098644775 / 72057594037927936,
     arm_angle_increase = 1224979098644775 / 72057594037927936,
     max_linear_speed = 1 / 2,
     max_angular_speed = 1 / 2,
     max_arm_angle = 5314247560297185 / 2251799813685248,
     max_drum_speed = 6124895493223875 / 36028797018963968,
     lights_increase = 10,
     lights_value = (\<lambda>_. 0) \<rparr>"
  by (simp add: init_def init_constants)


lemma init_fields:
  "linear_target_speed init = 0"
  "angular_target_speed init = 0"
  "front_drum_target_speed init = 0"
  "front_arm_target_angle init = 889460926405673 / 1125899906842624"
  "back_arm_target_angle init = 889460926405673 / 1125899906842624"
  "back_drum_target_speed init = 0"
  "linear_speed_increase init = 5764607523034235 / 576460752303423488"
  "angular_speed_increase init = 5764607523034235 / 576460752303423488"
  "drum_speed_increase init = 1224979098644775 / 72057594037927936"
  "arm_angle_increase init = 1224979098644775 / 72057594037927936"
  "max_linear_speed init = 1 / 2"
  "max_angular_speed init = 1 / 2"
  "max_arm_angle init = 5314247560297185 / 2251799813685248"
  "max_drum_speed init = 6124895493223875 / 36028797018963968"
  "lights_increase init = 10"
  "lights_value init = (\<lambda>_. 0)"
  by (simp_all add: init_eval)

section \<open>What each part of a frame leaves alone\<close>

lemma keyup_fields:
  "(fst (keyup c k b))\<lparr>lights_value := lv\<rparr> = c\<lparr>lights_value := lv\<rparr>"
  by (simp add: keyup_def toggle_light_def Let_def split: option.splits)

lemma handle_events_fields:
  "(fst (snd (handle_events c es)))\<lparr>lights_value := lv\<rparr> = c\<lparr>lights_value := lv\<rparr>"
proof (induction es arbitrary: c)
  case Nil
  show ?case by simp
next
  case (Cons e es)
  show ?case
  proof (cases "etype e")
    case QUIT
    then show ?thesis by simp
  next
    case OTHER_EVENT
    then show ?thesis using Cons.IH [of c] by simp
  next
    case (KEYUP k)
    show ?thesis
    proof (cases "is_quit_shortcut k")
      case True
      with KEYUP show ?thesis by simp
    next
      case False
      have "fst (snd (handle_events c (e # es))) = fst (snd (handle_events (fst (keyup c k (shift_held e))) es))"
        using KEYUP False by (simp add: split_beta)
      then show ?thesis
        using Cons.IH [of "fst (keyup c k (shift_held e))"] keyup_fields [where c = c and k = k and b = "shift_held e" and lv = lv]
        by simp
    qed
  qed
qed

lemma update_targets_unfold:
  "fst (update_targets c keys) =
     fst (update_back_drum (fst (update_back_arm (fst (update_front_arm
       (fst (update_front_drum (update_angular (update_linear c keys) keys) keys)) keys)) keys)) keys)"
  by (simp add: update_targets_def Let_def split_beta)

lemma update_lights [simp]:
  "lights_value (update_linear c keys) = lights_value c"
  "lights_value (update_angular c keys) = lights_value c"
  "lights_value (fst (update_front_drum c keys)) = lights_value c"
  "lights_value (fst (update_front_arm c keys)) = lights_value c"
  "lights_value (fst (update_back_arm c keys)) = lights_value c"
  "lights_value (fst (update_back_drum c keys)) = lights_value c"
  by (simp_all add: update_linear_def update_angular_def update_front_drum_def
  update_front_arm_def update_back_arm_def update_back_drum_def Let_def)

lemma update_targets_lights:
  "lights_value (fst (update_targets c keys)) = lights_value c"
  by (simp add: update_targets_unfold)


lemma handle_events_keeps [simp]:
  "linear_target_speed (fst (snd (handle_events c es))) = linear_target_speed c"
  "angular_target_speed (fst (snd (handle_events c es))) = angular_target_speed c"
  "front_drum_target_speed (fst (snd (handle_events c es))) = front_drum_target_speed c"
  "front_arm_target_angle (fst (snd (handle_events c es))) = front_arm_target_angle c"
  "back_arm_target_angle (fst (snd (handle_events c es))) = back_arm_target_angle c"
  "back_drum_target_speed (fst (snd (handle_events c es))) = back_drum_target_speed c"
  "linear_speed_increase (fst (snd (handle_events c es))) = linear_speed_increase c"
  "angular_speed_increase (fst (snd (handle_events c es))) = angular_speed_increase c"
  "drum_speed_increase (fst (snd (handle_events c es))) = drum_speed_increase c"
  "arm_angle_increase (fst (snd (handle_events c es))) = arm_angle_increase c"
  "max_linear_speed (fst (snd (handle_events c es))) = max_linear_speed c"
  "max_angular_speed (fst (snd (handle_events c es))) = max_angular_speed c"
  "max_arm_angle (fst (snd (handle_events c es))) = max_arm_angle c"
  "max_drum_speed (fst (snd (handle_events c es))) = max_drum_speed c"
  "lights_increase (fst (snd (handle_events c es))) = lights_increase c"
proof -
  let ?c = "fst (snd (handle_events c es))"
  have e: "?c\<lparr>lights_value := lights_value c\<rparr> = c"
    using handle_events_fields [where c = c and es = es and lv = "lights_value c"] by simp
  show "linear_target_speed ?c = linear_target_speed c"
    using arg_cong [OF e, of linear_target_speed] by simp
  show "angular_target_speed ?c = angular_target_speed c"
    using arg_cong [OF e, of angular_target_speed] by simp
  show "front_drum_target_speed ?c = front_drum_target_speed c"
    using arg_cong [OF e, of front_drum_target_speed] by simp
  show "front_arm_target_angle ?c = front_arm_target_angle c"
    using arg_cong [OF e, of front_arm_target_angle] by simp
  show "back_arm_target_angle ?c = back_arm_target_angle c"
    using arg_cong [OF e, of back_arm_target_angle] by simp
  show "back_drum_target_speed ?c = back_drum_target_speed c"
    using arg_cong [OF e, of back_drum_target_speed] by simp
  show "linear_speed_increase ?c = linear_speed_increase c"
    using arg_cong [OF e, of linear_speed_increase] by simp
  show "angular_speed_increase ?c = angular_speed_increase c"
    using arg_cong [OF e, of angular_speed_increase] by simp
  show "drum_speed_increase ?c = drum_speed_increase c"
    using arg_cong [OF e, of drum_speed_increase] by simp
  show "arm_angle_increase ?c = arm_angle_increase c"
    using arg_cong [OF e, of arm_angle_increase] by simp
  show "max_linear_speed ?c = max_linear_speed c"
    using arg_cong [OF e, of max_linear_speed] by simp
  show "max_angular_speed ?c = max_angular_speed c"
    using arg_cong [OF e, of max_angular_speed] by simp
  show "max_arm_angle ?c = max_arm_angle c"
    using arg_cong [OF e, of max_arm_angle] by simp
  show "max_drum_speed ?c = max_drum_speed c"
    using arg_cong [OF e, of max_drum_speed] by simp
  show "lights_increase ?c = lights_increase c"
    using arg_cong [OF e, of lights_increase] by simp
qed

lemma update_linear_keeps [simp]:
  "angular_target_speed (update_linear c keys) = angular_target_speed c"
  "front_drum_target_speed (update_linear c keys) = front_drum_target_speed c"
  "front_arm_target_angle (update_linear c keys) = front_arm_target_angle c"
  "back_arm_target_angle (update_linear c keys) = back_arm_target_angle c"
  "back_drum_target_speed (update_linear c keys) = back_drum_target_speed c"
  "linear_speed_increase (update_linear c keys) = linear_speed_increase c"
  "angular_speed_increase (update_linear c keys) = angular_speed_increase c"
  "drum_speed_increase (update_linear c keys) = drum_speed_increase c"
  "arm_angle_increase (update_linear c keys) = arm_angle_increase c"
  "max_linear_speed (update_linear c keys) = max_linear_speed c"
  "max_angular_speed (update_linear c keys) = max_angular_speed c"
  "max_arm_angle (update_linear c keys) = max_arm_angle c"
  "max_drum_speed (update_linear c keys) = max_drum_speed c"
  "lights_increase (update_linear c keys) = lights_increase c"
  "lights_value (update_linear c keys) = lights_value c"
  by (simp_all add: update_linear_def Let_def)

lemma update_angular_keeps [simp]:
  "linear_target_speed (update_angular c keys) = linear_target_speed c"
  "front_drum_target_speed (update_angular c keys) = front_drum_target_speed c"
  "front_arm_target_angle (update_angular c keys) = front_arm_target_angle c"
  "back_arm_target_angle (update_angular c keys) = back_arm_target_angle c"
  "back_drum_target_speed (update_angular c keys) = back_drum_target_speed c"
  "linear_speed_increase (update_angular c keys) = linear_speed_increase c"
  "angular_speed_increase (update_angular c keys) = angular_speed_increase c"
  "drum_speed_increase (update_angular c keys) = drum_speed_increase c"
  "arm_angle_increase (update_angular c keys) = arm_angle_increase c"
  "max_linear_speed (update_angular c keys) = max_linear_speed c"
  "max_angular_speed (update_angular c keys) = max_angular_speed c"
  "max_arm_angle (update_angular c keys) = max_arm_angle c"
  "max_drum_speed (update_angular c keys) = max_drum_speed c"
  "lights_increase (update_angular c keys) = lights_increase c"
  "lights_value (update_angular c keys) = lights_value c"
  by (simp_all add: update_angular_def Let_def)

lemma update_front_drum_keeps [simp]:
  "linear_target_speed (fst (update_front_drum c keys)) = linear_target_speed c"
  "angular_target_speed (fst (update_front_drum c keys)) = angular_target_speed c"
  "front_arm_target_angle (fst (update_front_drum c keys)) = front_arm_target_angle c"
  "back_arm_target_angle (fst (update_front_drum c keys)) = back_arm_target_angle c"
  "back_drum_target_speed (fst (update_front_drum c keys)) = back_drum_target_speed c"
  "linear_speed_increase (fst (update_front_drum c keys)) = linear_speed_increase c"
  "angular_speed_increase (fst (update_front_drum c keys)) = angular_speed_increase c"
  "drum_speed_increase (fst (update_front_drum c keys)) = drum_speed_increase c"
  "arm_angle_increase (fst (update_front_drum c keys)) = arm_angle_increase c"
  "max_linear_speed (fst (update_front_drum c keys)) = max_linear_speed c"
  "max_angular_speed (fst (update_front_drum c keys)) = max_angular_speed c"
  "max_arm_angle (fst (update_front_drum c keys)) = max_arm_angle c"
  "max_drum_speed (fst (update_front_drum c keys)) = max_drum_speed c"
  "lights_increase (fst (update_front_drum c keys)) = lights_increase c"
  "lights_value (fst (update_front_drum c keys)) = lights_value c"
  by (simp_all add: update_front_drum_def Let_def)

lemma update_front_arm_keeps [simp]:
  "linear_target_speed (fst (update_front_arm c keys)) = linear_target_speed c"
  "angular_target_speed (fst (update_front_arm c keys)) = angular_target_speed c"
  "front_drum_target_speed (fst (update_front_arm c keys)) = front_drum_target_speed c"
  "back_arm_target_angle (fst (update_front_arm c keys)) = back_arm_target_angle c"
  "back_drum_target_speed (fst (update_front_arm c keys)) = back_drum_target_speed c"
  "linear_speed_increase (fst (update_front_arm c keys)) = linear_speed_increase c"
  "angular_speed_increase (fst (update_front_arm c keys)) = angular_speed_increase c"
  "drum_speed_increase (fst (update_front_arm c keys)) = drum_speed_increase c"
  "arm_angle_increase (fst (update_front_arm c keys)) = arm_angle_increase c"
  "max_linear_speed (fst (update_front_arm c keys)) = max_linear_speed c"
  "max_angular_speed (fst (update_front_arm c keys)) = max_angular_speed c"
  "max_arm_angle (fst (update_front_arm c keys)) = max_arm_angle c"
  "max_drum_speed (fst (update_front_arm c keys)) = max_drum_speed c"
  "lights_increase (fst (update_front_arm c keys)) = lights_increase c"
  "lights_value (fst (update_front_arm c keys)) = lights_value c"
  by (simp_all add: update_front_arm_def Let_def)

lemma update_back_arm_keeps [simp]:
  "linear_target_speed (fst (update_back_arm c keys)) = linear_target_speed c"
  "angular_target_speed (fst (update_back_arm c keys)) = angular_target_speed c"
  "front_drum_target_speed (fst (update_back_arm c keys)) = front_drum_target_speed c"
  "front_arm_target_angle (fst (update_back_arm c keys)) = front_arm_target_angle c"
  "back_drum_target_speed (fst (update_back_arm c keys)) = back_drum_target_speed c"
  "linear_speed_increase (fst (update_back_arm c keys)) = linear_speed_increase c"
  "angular_speed_increase (fst (update_back_arm c keys)) = angular_speed_increase c"
  "drum_speed_increase (fst (update_back_arm c keys)) = drum_speed_increase c"
  "arm_angle_increase (fst (update_back_arm c keys)) = arm_angle_increase c"
  "max_linear_speed (fst (update_back_arm c keys)) = max_linear_speed c"
  "max_angular_speed (fst (update_back_arm c keys)) = max_angular_speed c"
  "max_arm_angle (fst (update_back_arm c keys)) = max_arm_angle c"
  "max_drum_speed (fst (update_back_arm c keys)) = max_drum_speed c"
  "lights_increase (fst (update_back_arm c keys)) = lights_increase c"
  "lights_value (fst (update_back_arm c keys)) = lights_value c"
  by (simp_all add: update_back_arm_def Let_def)

lemma update_back_drum_keeps [simp]:
  "linear_target_speed (fst (update_back_drum c keys)) = linear_target_speed c"
  "angular_target_speed (fst (update_back_drum c keys)) = angular_target_speed c"
  "front_drum_target_speed (fst (update_back_drum c keys)) = front_drum_target_speed c"
  "front_arm_target_angle (fst (update_back_drum c keys)) = front_arm_target_angle c"
  "back_arm_target_angle (fst (update_back_drum c keys)) = back_arm_target_angle c"
  "linear_speed_increase (fst (update_back_drum c keys)) = linear_speed_increase c"
  "angular_speed_increase (fst (update_back_drum c keys)) = angular_speed_increase c"
  "drum_speed_increase (fst (update_back_drum c keys)) = drum_speed_increase c"
  "arm_angle_increase (fst (update_back_drum c keys)) = arm_angle_increase c"
  "max_linear_speed (fst (update_back_drum c keys)) = max_linear_speed c"
  "max_angular_speed (fst (update_back_drum c keys)) = max_angular_speed c"
  "max_arm_angle (fst (update_back_drum c keys)) = max_arm_angle c"
  "max_drum_speed (fst (update_back_drum c keys)) = max_drum_speed c"
  "lights_increase (fst (update_back_drum c keys)) = lights_increase c"
  "lights_value (fst (update_back_drum c keys)) = lights_value c"
  by (simp_all add: update_back_drum_def Let_def)


lemma parse_events_state:
  "fst (snd (parse_events c fr)) =
     (if fst (handle_events c (events fr)) then fst (snd (handle_events c (events fr)))
      else fst (update_targets (fst (snd (handle_events c (events fr)))) (pressed fr)))"
  by (simp add: parse_events_def split_beta split: prod.splits bool.splits)

lemma game_loop_step:
  "game_loop c (fr # frs) =
     (if fst (parse_events c fr) then fst (snd (parse_events c fr))
      else game_loop (fst (snd (parse_events c fr))) frs)"
  by (simp split: prod.splits bool.splits)

lemma update_targets_front_drum:
  "\<not> keys K_f \<Longrightarrow> \<not> keys K_v \<Longrightarrow>
   front_drum_target_speed (fst (update_targets c keys)) = front_drum_target_speed c"
  by (simp add: update_targets_unfold) (simp add: update_front_drum_def)

lemma update_targets_front_arm:
  "\<not> keys K_g \<Longrightarrow> \<not> keys K_b \<Longrightarrow>
   front_arm_target_angle (fst (update_targets c keys)) = front_arm_target_angle c"
  by (simp add: update_targets_unfold) (simp add: update_front_arm_def)

lemma update_targets_back_arm:
  "\<not> keys K_h \<Longrightarrow> \<not> keys K_n \<Longrightarrow>
   back_arm_target_angle (fst (update_targets c keys)) = back_arm_target_angle c"
  by (simp add: update_targets_unfold) (simp add: update_back_arm_def)

lemma update_targets_back_drum:
  "\<not> keys K_j \<Longrightarrow> \<not> keys K_m \<Longrightarrow>
   back_drum_target_speed (fst (update_targets c keys)) = back_drum_target_speed c"
  by (simp add: update_targets_unfold) (simp add: update_back_drum_def)


text \<open>A property that every frame preserves holds when the loop is left.\<close>

lemma game_loop_invariant:
  assumes "P c"
    and "\<And>c fr. P c \<Longrightarrow> fr \<in> set frs \<Longrightarrow> P (fst (snd (parse_events c fr)))"
  shows "P (game_loop c frs)"
  using assms
proof (induction frs arbitrary: c)
  case Nil
  then show ?case by simp
next
  case (Cons fr frs)
  have 1: "P (fst (snd (parse_events c fr)))" using Cons.prems by simp
  have 2: "P (game_loop (fst (snd (parse_events c fr))) frs)"
    using 1 Cons.prems(2) by (intro Cons.IH) simp_all
  show ?case unfolding game_loop_step using 1 2 by (cases "fst (parse_events c fr)") simp_all
qed

lemma parse_events_front_drum:
  "\<not> pressed fr K_f \<Longrightarrow> \<not> pressed fr K_v \<Longrightarrow>
   front_drum_target_speed (fst (snd (parse_events c fr))) = front_drum_target_speed c"
  by (simp add: parse_events_state update_targets_front_drum)

lemma parse_events_front_arm:
  "\<not> pressed fr K_g \<Longrightarrow> \<not> pressed fr K_b \<Longrightarrow>
   front_arm_target_angle (fst (snd (parse_events c fr))) = front_arm_target_angle c"
  by (simp add: parse_events_state update_targets_front_arm)

lemma parse_events_back_arm:
  "\<not> pressed fr K_h \<Longrightarrow> \<not> pressed fr K_n \<Longrightarrow>
   back_arm_target_angle (fst (snd (parse_events c fr))) = back_arm_target_angle c"
  by (simp add: parse_events_state update_targets_back_arm)

lemma parse_events_back_drum:
  "\<not> pressed fr K_j \<Longrightarrow> \<not> pressed fr K_m \<Longrightarrow>
   back_drum_target_speed (fst (snd (parse_events c fr))) = back_drum_target_speed c"
  by (simp add: parse_events_state update_targets_back_drum)


lemma handle_events_quit: "fst (handle_events c es) = list_ex quit_event es"
proof (induction es arbitrary: c)
  case Nil
  show ?case by simp
next
  case (Cons e es)
  show ?case
  proof (cases "etype e")
    case QUIT
    then show ?thesis by (simp add: quit_event_def)
  next
    case OTHER_EVENT
    then show ?thesis using Cons.IH by (simp add: quit_event_def)
  next
    case (KEYUP k)
    then show ?thesis using Cons.IH by (simp add: quit_event_def split_beta)
  qed
qed

lemma parse_events_quit: "fst (parse_events c fr) = list_ex quit_event (events fr)"
proof -
  have "fst (parse_events c fr) = fst (handle_events c (events fr))"
    by (simp add: parse_events_def split_beta split: prod.splits bool.splits)
  then show ?thesis by (simp add: handle_events_quit)
qed

lemma parse_events_linear:
  "linear_target_speed (fst (snd (parse_events c fr))) =
     (if list_ex quit_event (events fr) then linear_target_speed c
      else if pressed fr K_UP \<or> pressed fr K_w
        then ramp_up (linear_speed_increase c) (max_linear_speed c) (linear_target_speed c)
      else if pressed fr K_DOWN \<or> pressed fr K_s
        then ramp_down (linear_speed_increase c) (- max_linear_speed c) (linear_target_speed c)
      else decay (linear_speed_increase c) 0 (linear_target_speed c))"
  by (simp add: parse_events_state handle_events_quit update_targets_unfold)
     (simp add: update_linear_def ramp_up_def ramp_down_def decay_def)

lemma parse_events_angular:
  "angular_target_speed (fst (snd (parse_events c fr))) =
     (if list_ex quit_event (events fr) then angular_target_speed c
      else if pressed fr K_LEFT \<or> pressed fr K_a
        then ramp_down (angular_speed_increase c) (- max_angular_speed c) (angular_target_speed c)
      else if pressed fr K_RIGHT \<or> pressed fr K_d
        then ramp_up (angular_speed_increase c) (max_angular_speed c) (angular_target_speed c)
      else decay (angular_speed_increase c) 0 (angular_target_speed c))"
  by (simp add: parse_events_state handle_events_quit update_targets_unfold)
     (simp add: update_angular_def ramp_up_def ramp_down_def decay_def)

lemma parse_events_front_drum_value:
  "front_drum_target_speed (fst (snd (parse_events c fr))) =
     (if list_ex quit_event (events fr) then front_drum_target_speed c
      else if pressed fr K_f
        then ramp_up (drum_speed_increase c) (max_drum_speed c) (front_drum_target_speed c)
      else if pressed fr K_v
        then ramp_down (drum_speed_increase c) (- max_drum_speed c) (front_drum_target_speed c)
      else front_drum_target_speed c)"
  by (simp add: parse_events_state handle_events_quit update_targets_unfold)
     (simp add: update_front_drum_def ramp_up_def ramp_down_def Let_def)

lemma parse_events_front_arm_value:
  "front_arm_target_angle (fst (snd (parse_events c fr))) =
     (if list_ex quit_event (events fr) then front_arm_target_angle c
      else if pressed fr K_g
        then ramp_up (arm_angle_increase c) (max_arm_angle c) (front_arm_target_angle c)
      else if pressed fr K_b
        then ramp_down (arm_angle_increase c) (- max_arm_angle c) (front_arm_target_angle c)
      else front_arm_target_angle c)"
  by (simp add: parse_events_state handle_events_quit update_targets_unfold)
     (simp add: update_front_arm_def ramp_up_def ramp_down_def Let_def)

lemma parse_events_back_arm_value:
  "back_arm_target_angle (fst (snd (parse_events c fr))) =
     (if list_ex quit_event (events fr) then back_arm_target_angle c
      else if pressed fr K_h
        then ramp_up (arm_angle_increase c) (max_arm_angle c) (back_arm_target_angle c)
      else if pressed fr K_n
        then ramp_down (arm_angle_increase c) (- max_arm_angle c) (back_arm_target_angle c)
      else back_arm_target_angle c)"
  by (simp add: parse_events_state handle_events_quit update_targets_unfold)
     (simp add: update_back_arm_def ramp_up_def ramp_down_def Let_def)

lemma parse_events_back_drum_value:
  "back_drum_target_speed (fst (snd (parse_events c fr))) =
     (if list_ex quit_event (events fr) then back_drum_target_speed c
      else if pressed fr K_j
        then ramp_up (drum_speed_increase c) (max_drum_speed c) (back_drum_target_speed c)
      else if pressed fr K_m
        then ramp_down (drum_speed_increase c) (- max_drum_speed c) (back_drum_target_speed c)
      else back_drum_target_speed c)"
  by (simp add: parse_events_state handle_events_quit update_targets_unfold)
     (simp add: update_back_drum_def ramp_up_def ramp_down_def Let_def)

lemma parse_events_constants [simp]:
  "linear_speed_increase (fst (snd (parse_events c fr))) = linear_speed_increase c"
  "angular_speed_increase (fst (snd (parse_events c fr))) = angular_speed_increase c"
  "drum_speed_increase (fst (snd (parse_events c fr))) = drum_speed_increase c"
  "arm_angle_increase (fst (snd (parse_events c fr))) = arm_angle_increase c"
  "max_linear_speed (fst (snd (parse_events c fr))) = max_linear_speed c"
  "max_angular_speed (fst (snd (parse_events c fr))) = max_angular_speed c"
  "max_arm_angle (fst (snd (parse_events c fr))) = max_arm_angle c"
  "max_drum_speed (fst (snd (parse_events c fr))) = max_drum_speed c"
  "lights_increase (fst (snd (parse_events c fr))) = lights_increase c"
  by (simp_all add: parse_events_state update_targets_unfold)


declare game_loop.simps(2) [simp del]

lemma game_loop_single [simp]: "game_loop c [fr] = fst (snd (parse_events c fr))"
  unfolding game_loop_step by simp

lemma held_simps [simp]:
  "events (held ks) = []"
  "pressed (held ks) k \<longleftrightarrow> k \<in> set ks"
  by (simp_all add: held_def)


lemma update_targets_commands:
  "snd (update_targets c keys) =
     [apply_velocity_control (linear_target_speed (fst (update_targets c keys)))
        (angular_target_speed (fst (update_targets c keys)))] @
     (if keys K_f \<or> keys K_v
      then [set_front_drums_target_speed (front_drum_target_speed (fst (update_targets c keys)))] else []) @
     (if keys K_g \<or> keys K_b
      then [set_front_arm_angle (front_arm_target_angle (fst (update_targets c keys)))] else []) @
     (if keys K_h \<or> keys K_n
      then [set_back_arm_angle (back_arm_target_angle (fst (update_targets c keys)))] else []) @
     (if keys K_j \<or> keys K_m
      then [set_back_drums_target_speed (back_drum_target_speed (fst (update_targets c keys)))] else [])"
proof -
  define c2 where "c2 = update_angular (update_linear c keys) keys"
  define c3 where "c3 = fst (update_front_drum c2 keys)"
  define c4 where "c4 = fst (update_front_arm c3 keys)"
  define c5 where "c5 = fst (update_back_arm c4 keys)"
  define c6 where "c6 = fst (update_back_drum c5 keys)"
  have st: "fst (update_targets c keys) = c6"
    by (simp add: update_targets_unfold c6_def c5_def c4_def c3_def c2_def)
  have out: "snd (update_targets c keys) =
      [apply_velocity_control (linear_target_speed c2) (angular_target_speed c2)] @
      snd (update_front_drum c2 keys) @ snd (update_front_arm c3 keys) @
      snd (update_back_arm c4 keys) @ snd (update_back_drum c5 keys)"
    by (simp add: update_targets_def Let_def split_beta c6_def c5_def c4_def c3_def c2_def)
  have 1: "linear_target_speed c6 = linear_target_speed c2" "angular_target_speed c6 = angular_target_speed c2"
    by (simp_all add: c6_def c5_def c4_def c3_def)
  have 2: "snd (update_front_drum c2 keys) =
      (if keys K_f \<or> keys K_v then [set_front_drums_target_speed (front_drum_target_speed c6)] else [])"
    by (simp add: c6_def c5_def c4_def c3_def) (simp add: update_front_drum_def Let_def)
  have 3: "snd (update_front_arm c3 keys) =
      (if keys K_g \<or> keys K_b then [set_front_arm_angle (front_arm_target_angle c6)] else [])"
    by (simp add: c6_def c5_def c4_def) (simp add: update_front_arm_def Let_def)
  have 4: "snd (update_back_arm c4 keys) =
      (if keys K_h \<or> keys K_n then [set_back_arm_angle (back_arm_target_angle c6)] else [])"
    by (simp add: c6_def c5_def) (simp add: update_back_arm_def Let_def)
  have 5: "snd (update_back_drum c5 keys) =
      (if keys K_j \<or> keys K_m then [set_back_drums_target_speed (back_drum_target_speed c6)] else [])"
    by (simp add: c6_def) (simp add: update_back_drum_def Let_def)
  show ?thesis unfolding st out 1 2 3 4 5 ..
qed

lemma parse_events_commands:
  "snd (snd (parse_events c fr)) =
     (if list_ex quit_event (events fr) then snd (snd (handle_events c (events fr)))
      else snd (snd (handle_events c (events fr))) @
           snd (update_targets (fst (snd (handle_events c (events fr)))) (pressed fr)))"
  using handle_events_quit [of c "events fr"]
  by (simp add: parse_events_def split_beta split: prod.splits bool.splits)

lemma parse_events_state':
  "\<not> list_ex quit_event (events fr) \<Longrightarrow>
   fst (snd (parse_events c fr)) = fst (update_targets (fst (snd (handle_events c (events fr)))) (pressed fr))"
  by (simp add: parse_events_state handle_events_quit)


text \<open>What a frame does to the lights is what its queued events do.\<close>

lemma parse_events_lights:
  "lights_value (fst (snd (parse_events c fr))) = lights_value (fst (snd (handle_events c (events fr))))"
  by (simp add: parse_events_state update_targets_lights)

lemma toggle_light_value:
  "lights_value (fst (toggle_light c s shift)) =
     (lights_value c)(s := max (min ((if shift then fsub else fadd) (lights_value c s)
        (of_int (lights_increase c))) 100) 0)"
  by (simp add: toggle_light_def Let_def)

lemma keyup_lights:
  "lights_value (fst (keyup c k shift)) =
     (case sensor_of_key k of None \<Rightarrow> lights_value c
      | Some s \<Rightarrow> (lights_value c)(s := max (min ((if shift then fsub else fadd) (lights_value c s)
          (of_int (lights_increase c))) 100) 0))"
  by (simp add: keyup_def toggle_light_value split_beta split: option.splits)

lemma keyup_keeps [simp]:
  "lights_increase (fst (keyup c k shift)) = lights_increase c"
  using arg_cong [OF keyup_fields [where c = c and k = k and b = shift and lv = "lights_value c"], of lights_increase]
  by simp

lemma sensor_key_not_quit: "sensor_of_key k = Some s \<Longrightarrow> \<not> is_quit_shortcut k"
  by (auto simp: sensor_of_key_def is_quit_shortcut_def split: if_splits)

lemma single_toggle_lights:
  assumes "events fr = [ev]" "etype ev = KEYUP k" "sensor_of_key k = Some s"
  shows "lights_value (fst (snd (parse_events c fr))) =
     (lights_value c)(s := max (min ((if shift_held ev then fsub else fadd) (lights_value c s)
        (of_int (lights_increase c))) 100) 0)"
  using assms sensor_key_not_quit [OF assms(3)]
  by (simp add: parse_events_lights split_beta keyup_lights)


text \<open>Frames on which \<^verbatim>\<open>parse_events\<close> returns \<open>False\<close> can be run one after another.\<close>

lemma game_loop_append:
  assumes "list_all (\<lambda>fr. \<not> list_ex quit_event (events fr)) frs"
  shows "game_loop c (frs @ frs') = game_loop (game_loop c frs) frs'"
  using assms
proof (induction frs arbitrary: c)
  case Nil
  show ?case by simp
next
  case (Cons fr frs)
  then have q: "\<not> fst (parse_events c fr)" by (simp add: parse_events_quit)
  have "game_loop c ((fr # frs) @ frs') = game_loop (fst (snd (parse_events c fr))) (frs @ frs')"
    using q by (simp add: game_loop_step)
  also have "\<dots> = game_loop (game_loop (fst (snd (parse_events c fr))) frs) frs'"
    using Cons.prems by (intro Cons.IH) simp
  also have "game_loop (fst (snd (parse_events c fr))) frs = game_loop c (fr # frs)"
    using q by (simp add: game_loop_step)
  finally show ?case .
qed

lemma game_loop_snoc:
  assumes "list_all (\<lambda>fr. \<not> list_ex quit_event (events fr)) frs"
  shows "game_loop c (frs @ [fr]) = fst (snd (parse_events (game_loop c frs) fr))"
  using game_loop_append [OF assms, of c "[fr]"] by simp

lemma game_loop_constants [simp]:
  "linear_speed_increase (game_loop c frs) = linear_speed_increase c"
  "angular_speed_increase (game_loop c frs) = angular_speed_increase c"
  "drum_speed_increase (game_loop c frs) = drum_speed_increase c"
  "arm_angle_increase (game_loop c frs) = arm_angle_increase c"
  "max_linear_speed (game_loop c frs) = max_linear_speed c"
  "max_angular_speed (game_loop c frs) = max_angular_speed c"
  "max_arm_angle (game_loop c frs) = max_arm_angle c"
  "max_drum_speed (game_loop c frs) = max_drum_speed c"
  "lights_increase (game_loop c frs) = lights_increase c"
  by (rule game_loop_invariant; simp)+

section \<open>Properties of the three formulas\<close>

lemma fsub_nonpos: "x \<le> y \<Longrightarrow> fsub x y \<le> 0"
  using fl_nonpos [of "x - y"] by (simp add: fsub_def)

lemma fmul_nonneg: "0 \<le> x \<Longrightarrow> 0 \<le> y \<Longrightarrow> 0 \<le> fmul x y"
  using fl_nonneg [of "x * y"] by (simp add: fmul_def)

lemma decay_negative:
  assumes "0 \<le> d" "x < 0"
  shows "decay d 0 x = 0"
proof -
  have "0 \<le> fmul 2 d" using assms(1) by (intro fmul_nonneg) simp_all
  then have "fsub x (fmul 2 d) \<le> 0" using assms(2) by (intro fsub_nonpos) linarith
  then show ?thesis by (simp add: decay_def)
qed


lemma fadd_ge:
  assumes "is_double b" "b \<le> x + y"
  shows "b \<le> fadd x y"
  using fl_mono [OF assms(2)] assms(1) by (simp add: fadd_def is_double_def)

lemma fsub_le:
  assumes "is_double b" "x - y \<le> b"
  shows "fsub x y \<le> b"
  using fl_mono [OF assms(2)] assms(1) by (simp add: fsub_def is_double_def)

lemma fsub_ge:
  assumes "is_double b" "b \<le> x - y"
  shows "b \<le> fsub x y"
  using fl_mono [OF assms(2)] assms(1) by (simp add: fsub_def is_double_def)

lemma fadd_le:
  assumes "is_double b" "x + y \<le> b"
  shows "fadd x y \<le> b"
  using fl_mono [OF assms(2)] assms(1) by (simp add: fadd_def is_double_def)

lemma is_double_minus [simp]: "is_double (- x) \<longleftrightarrow> is_double x"
  by (simp add: is_double_def fl_minus)

lemma is_double_0 [simp]: "is_double 0"
  by (simp add: is_double_def)

lemma ramp_up_bounds:
  assumes "0 \<le> inc" "is_double m" "0 \<le> m" "- m \<le> x"
  shows "- m \<le> ramp_up inc m x" "ramp_up inc m x \<le> m"
proof -
  have "- m \<le> fadd x inc" using assms by (intro fadd_ge) simp_all
  then show "- m \<le> ramp_up inc m x" using assms(3) by (simp add: ramp_up_def)
  show "ramp_up inc m x \<le> m" by (simp add: ramp_up_def)
qed

lemma ramp_down_bounds:
  assumes "0 \<le> inc" "is_double m" "0 \<le> m" "x \<le> m"
  shows "- m \<le> ramp_down inc (- m) x" "ramp_down inc (- m) x \<le> m"
proof -
  have "fsub x inc \<le> m" using assms by (intro fsub_le) simp_all
  then show "ramp_down inc (- m) x \<le> m" using assms(3) by (simp add: ramp_down_def)
  show "- m \<le> ramp_down inc (- m) x" by (simp add: ramp_down_def)
qed

lemma decay_bounds:
  assumes "0 \<le> inc" "is_double m" "0 \<le> m" "x \<le> m"
  shows "- m \<le> decay inc 0 x" "decay inc 0 x \<le> m"
proof -
  have "0 \<le> fmul 2 inc" using assms(1) by (intro fmul_nonneg) simp_all
  then have "fsub x (fmul 2 inc) \<le> m" using assms by (intro fsub_le) simp_all
  then show "decay inc 0 x \<le> m" using assms(3) by (simp add: decay_def)
  show "- m \<le> decay inc 0 x" using assms(3) by (simp add: decay_def)
qed

lemma configured_facts:
  assumes "configured c"
  shows "0 \<le> linear_speed_increase c" "0 \<le> angular_speed_increase c"
    "0 \<le> drum_speed_increase c" "0 \<le> arm_angle_increase c"
    "0 \<le> max_linear_speed c" "0 \<le> max_angular_speed c"
    "0 \<le> max_arm_angle c" "0 \<le> max_drum_speed c"
    "is_double (max_linear_speed c)" "is_double (max_angular_speed c)"
    "is_double (max_arm_angle c)" "is_double (max_drum_speed c)"
    "is_double (linear_speed_increase c)" "is_double (angular_speed_increase c)"
    "is_double (drum_speed_increase c)" "is_double (arm_angle_increase c)"
  using assms by (simp_all add: configured_def init_def fl_nonneg)

lemma configured_init [simp]: "configured init"
  by (simp add: configured_def)

lemma configured_parse_events [simp]:
  "configured (fst (snd (parse_events c fr))) \<longleftrightarrow> configured c"
  by (simp add: configured_def)

lemma within_bounds_init: "within_bounds init"
  by (simp add: within_bounds_def init_eval)

lemma within_bounds_parse_events:
  assumes "configured c" "within_bounds c"
  shows "within_bounds (fst (snd (parse_events c fr)))"
proof -
  note f = configured_facts [OF assms(1)]
  note b = assms(2) [unfolded within_bounds_def]
  have 1: "- max_linear_speed c \<le> linear_target_speed (fst (snd (parse_events c fr))) \<and>
      linear_target_speed (fst (snd (parse_events c fr))) \<le> max_linear_speed c"
    using f b by (simp add: parse_events_linear ramp_up_bounds ramp_down_bounds decay_bounds)
  have 2: "- max_angular_speed c \<le> angular_target_speed (fst (snd (parse_events c fr))) \<and>
      angular_target_speed (fst (snd (parse_events c fr))) \<le> max_angular_speed c"
    using f b by (simp add: parse_events_angular ramp_up_bounds ramp_down_bounds decay_bounds)
  have 3: "- max_drum_speed c \<le> front_drum_target_speed (fst (snd (parse_events c fr))) \<and>
      front_drum_target_speed (fst (snd (parse_events c fr))) \<le> max_drum_speed c"
    using f b by (simp add: parse_events_front_drum_value ramp_up_bounds ramp_down_bounds)
  have 4: "- max_arm_angle c \<le> front_arm_target_angle (fst (snd (parse_events c fr))) \<and>
      front_arm_target_angle (fst (snd (parse_events c fr))) \<le> max_arm_angle c"
    using f b by (simp add: parse_events_front_arm_value ramp_up_bounds ramp_down_bounds)
  have 5: "- max_arm_angle c \<le> back_arm_target_angle (fst (snd (parse_events c fr))) \<and>
      back_arm_target_angle (fst (snd (parse_events c fr))) \<le> max_arm_angle c"
    using f b by (simp add: parse_events_back_arm_value ramp_up_bounds ramp_down_bounds)
  have 6: "- max_drum_speed c \<le> back_drum_target_speed (fst (snd (parse_events c fr))) \<and>
      back_drum_target_speed (fst (snd (parse_events c fr))) \<le> max_drum_speed c"
    using f b by (simp add: parse_events_back_drum_value ramp_up_bounds ramp_down_bounds)
  show ?thesis
    unfolding within_bounds_def using 1 2 3 4 5 6 by simp
qed

lemma reachable_configured: "configured (game_loop init frs)"
  by (rule game_loop_invariant [where P = configured]) simp_all

lemma reachable_within_bounds: "within_bounds (game_loop init frs)"
proof -
  have "configured (game_loop init frs) \<and> within_bounds (game_loop init frs)"
    by (rule game_loop_invariant [where P = "\<lambda>c. configured c \<and> within_bounds c"])
       (simp_all add: within_bounds_init within_bounds_parse_events)
  then show ?thesis ..
qed


lemma fl_of_int:
  assumes "\<bar>n\<bar> < 2 ^ 53"
  shows "fl (of_int n) = of_int n"
proof -
  have pos: "fl_pos (of_int m) = of_int m" if "0 < m" "m < 2 ^ 53" for m :: int
  proof -
    have "(of_int m :: rat) < of_int (2 ^ 53)" using that(2) by (simp only: of_int_less_iff)
    then have "(of_int m :: rat) < pow2 (52 + 1)" by (simp add: pow2_def)
    moreover have "(0 :: rat) < of_int m" using that(1) by simp
    ultimately have "expo (of_int m) \<le> 52" by (intro expo_le)
    then have "ulp_exp (of_int m) \<le> 0" by (simp add: ulp_exp_def)
    moreover have "(of_int m :: rat) = of_int m * pow2 0" by (simp add: pow2_def)
    ultimately show ?thesis by (rule fl_pos_grid)
  qed
  show ?thesis
  proof (cases "n = 0")
    case True
    then show ?thesis by simp
  next
    case False
    show ?thesis
    proof (cases "0 < n")
      case True
      then show ?thesis using pos [of n] assms by (simp add: fl_def)
    next
      case neg: False
      with False have "0 < - n" "- n < 2 ^ 53" using assms by simp_all
      then have "fl_pos (of_int (- n)) = of_int (- n)" by (rule pos)
      then show ?thesis using neg False by (simp add: fl_def)
    qed
  qed
qed

lemma light_step_exact:
  assumes "0 \<le> n" "n \<le> 100"
  shows "fadd (of_int n) (of_int 10) = of_int (n + 10)" "fsub (of_int n) (of_int 10) = of_int (n - 10)"
proof -
  have "fl (of_int (n + 10)) = of_int (n + 10)" using assms by (intro fl_of_int) simp
  then show "fadd (of_int n) (of_int 10) = of_int (n + 10)" by (simp add: fadd_def)
  have "fl (of_int (n - 10)) = of_int (n - 10)" using assms by (intro fl_of_int) simp
  then show "fsub (of_int n) (of_int 10) = of_int (n - 10)" by (simp add: fsub_def)
qed


lemma is_double_min: "is_double a \<Longrightarrow> is_double b \<Longrightarrow> is_double (min a b)"
  by (simp add: min_def)

lemma is_double_max: "is_double a \<Longrightarrow> is_double b \<Longrightarrow> is_double (max a b)"
  by (simp add: max_def)

lemma is_double_formulas [simp]:
  "is_double m \<Longrightarrow> is_double (ramp_up inc m x)"
  "is_double m \<Longrightarrow> is_double (ramp_down inc m x)"
  "is_double m \<Longrightarrow> is_double (decay inc m x)"
  by (simp_all add: ramp_up_def ramp_down_def decay_def fadd_def fsub_def is_double_min is_double_max)

lemma decay_nonpos:
  assumes "0 \<le> d" "x \<le> 0"
  shows "decay d 0 x = 0"
proof -
  have "0 \<le> fmul 2 d" using assms(1) by (intro fmul_nonneg) simp_all
  then have "fsub x (fmul 2 d) \<le> 0" using assms(2) by (intro fsub_nonpos) linarith
  then show ?thesis by (simp add: decay_def)
qed

lemma decay_nonneg:
  assumes "0 \<le> d" "is_double x"
  shows "0 \<le> decay d 0 x" "decay d 0 x \<le> max x 0"
proof -
  show "0 \<le> decay d 0 x" by (simp add: decay_def)
  have "0 \<le> fmul 2 d" using assms(1) by (intro fmul_nonneg) simp_all
  then have "fsub x (fmul 2 d) \<le> x" using assms(2) by (intro fsub_le) simp_all
  then show "decay d 0 x \<le> max x 0" by (simp add: decay_def)
qed


subsection \<open>Iterating the increase\<close>

lemma ramp_up_ge:
  assumes "0 \<le> inc" "is_double x" "x \<le> m"
  shows "x \<le> ramp_up inc m x"
proof -
  have "x \<le> fadd x inc" using assms(1,2) by (intro fadd_ge) simp_all
  then show ?thesis using assms(3) by (simp add: ramp_up_def)
qed

lemma ramp_up_le: "ramp_up inc m x \<le> m"
  by (simp add: ramp_up_def)

lemma ramp_up_max:
  assumes "0 \<le> inc" "is_double m"
  shows "ramp_up inc m m = m"
proof -
  have "m \<le> fadd m inc" using assms by (intro fadd_ge) simp_all
  then show ?thesis by (simp add: ramp_up_def)
qed

lemma ramp_up_funpow_props:
  assumes "0 \<le> inc" "is_double x" "is_double m" "x \<le> m"
  shows "is_double ((ramp_up inc m ^^ n) x) \<and> x \<le> (ramp_up inc m ^^ n) x \<and>
    (ramp_up inc m ^^ n) x \<le> m"
proof (induction n)
  case 0
  show ?case using assms by simp
next
  case (Suc n)
  then have ih: "is_double ((ramp_up inc m ^^ n) x)" "x \<le> (ramp_up inc m ^^ n) x"
    "(ramp_up inc m ^^ n) x \<le> m" by simp_all
  have "(ramp_up inc m ^^ n) x \<le> ramp_up inc m ((ramp_up inc m ^^ n) x)"
    using assms(1) ih(1,3) by (rule ramp_up_ge)
  then show ?case using ih(2) assms(3) by (simp add: ramp_up_le)
qed

lemma ramp_up_funpow_mono:
  assumes "0 \<le> inc" "is_double x" "is_double m" "x \<le> m"
  shows "(ramp_up inc m ^^ n) x \<le> (ramp_up inc m ^^ (n + k)) x"
proof (induction k)
  case 0
  show ?case by simp
next
  case (Suc k)
  note p = ramp_up_funpow_props [OF assms, of "n + k"]
  have "(ramp_up inc m ^^ (n + k)) x \<le> ramp_up inc m ((ramp_up inc m ^^ (n + k)) x)"
    using assms(1) p by (intro ramp_up_ge) simp_all
  then show ?case using Suc by simp
qed

lemma ramp_up_funpow_max:
  assumes "0 \<le> inc" "is_double m" "(ramp_up inc m ^^ n) x = m"
  shows "(ramp_up inc m ^^ (n + k)) x = m"
proof (induction k)
  case 0
  show ?case using assms(3) by simp
next
  case (Suc k)
  then show ?case using ramp_up_max [OF assms(1,2)] by simp
qed




section \<open>Runs of frames with the same keys\<close>

lemma released_not_quit:
  "list_all linear_released frs \<Longrightarrow> list_all (\<lambda>fr. \<not> list_ex quit_event (events fr)) frs"
  "list_all angular_released frs \<Longrightarrow> list_all (\<lambda>fr. \<not> list_ex quit_event (events fr)) frs"
  by (simp_all add: list_all_iff linear_released_def angular_released_def)

lemma released_frame_linear:
  "linear_released fr \<Longrightarrow>
   linear_target_speed (fst (snd (parse_events c fr))) =
     decay (linear_speed_increase c) 0 (linear_target_speed c)"
  by (simp add: parse_events_linear linear_released_def)

lemma released_frame_angular:
  "angular_released fr \<Longrightarrow>
   angular_target_speed (fst (snd (parse_events c fr))) =
     decay (angular_speed_increase c) 0 (angular_target_speed c)"
  by (simp add: parse_events_angular angular_released_def)

lemma released_run_linear:
  assumes "list_all linear_released frs" "0 \<le> linear_speed_increase c"
    "is_double (linear_target_speed c)"
  shows "is_double (linear_target_speed (game_loop c frs)) \<and>
    min (linear_target_speed c) 0 \<le> linear_target_speed (game_loop c frs) \<and>
    linear_target_speed (game_loop c frs) \<le> max (linear_target_speed c) 0"
  using assms(1)
proof (induction frs rule: rev_induct)
  case Nil
  show ?case using assms(3) by simp
next
  case (snoc fr frs)
  then have r: "list_all linear_released frs" "linear_released fr" by simp_all
  let ?v = "linear_target_speed (game_loop c frs)"
  have ih: "is_double ?v" "min (linear_target_speed c) 0 \<le> ?v" "?v \<le> max (linear_target_speed c) 0"
    using snoc.IH [OF r(1)] by simp_all
  have v: "linear_target_speed (game_loop c (frs @ [fr])) = decay (linear_speed_increase c) 0 ?v"
    by (simp add: game_loop_snoc [OF released_not_quit(1) [OF r(1)]] released_frame_linear [OF r(2)])
  have "0 \<le> decay (linear_speed_increase c) 0 ?v"
    "decay (linear_speed_increase c) 0 ?v \<le> max ?v 0"
    using decay_nonneg [OF assms(2) ih(1)] by simp_all
  then show ?case unfolding v using ih by (simp add: min_def max_def split: if_splits)
qed

lemma released_run_angular:
  assumes "list_all angular_released frs" "0 \<le> angular_speed_increase c"
    "is_double (angular_target_speed c)"
  shows "is_double (angular_target_speed (game_loop c frs)) \<and>
    min (angular_target_speed c) 0 \<le> angular_target_speed (game_loop c frs) \<and>
    angular_target_speed (game_loop c frs) \<le> max (angular_target_speed c) 0"
  using assms(1)
proof (induction frs rule: rev_induct)
  case Nil
  show ?case using assms(3) by simp
next
  case (snoc fr frs)
  then have r: "list_all angular_released frs" "angular_released fr" by simp_all
  let ?v = "angular_target_speed (game_loop c frs)"
  have ih: "is_double ?v" "min (angular_target_speed c) 0 \<le> ?v" "?v \<le> max (angular_target_speed c) 0"
    using snoc.IH [OF r(1)] by simp_all
  have v: "angular_target_speed (game_loop c (frs @ [fr])) = decay (angular_speed_increase c) 0 ?v"
    by (simp add: game_loop_snoc [OF released_not_quit(2) [OF r(1)]] released_frame_angular [OF r(2)])
  have "0 \<le> decay (angular_speed_increase c) 0 ?v"
    "decay (angular_speed_increase c) 0 ?v \<le> max ?v 0"
    using decay_nonneg [OF assms(2) ih(1)] by simp_all
  then show ?case unfolding v using ih by (simp add: min_def max_def split: if_splits)
qed


lemmas increase_defs = linear_increase_def angular_increase_def front_drum_increase_def
  front_arm_increase_def back_arm_increase_def back_drum_increase_def

text \<open>
  A value that every frame of a run maps by \<open>f\<close> is mapped by the run as often as it has
  frames.
\<close>

lemma game_loop_funpow:
  assumes "list_all P frs"
    and "\<And>fr. P fr \<Longrightarrow> \<not> list_ex quit_event (events fr)"
    and "\<And>c' fr. P fr \<Longrightarrow> Inv c' \<Longrightarrow> sel (fst (snd (parse_events c' fr))) = f (sel c')"
    and "\<And>c' fr. Inv c' \<Longrightarrow> Inv (fst (snd (parse_events c' fr)))"
    and "Inv c"
  shows "sel (game_loop c frs) = (f ^^ length frs) (sel c)"
  using assms(1)
proof (induction frs rule: rev_induct)
  case Nil
  show ?case by simp
next
  case (snoc fr frs)
  then have r: "list_all P frs" "P fr" by simp_all
  have q: "list_all (\<lambda>fr. \<not> list_ex quit_event (events fr)) frs"
    using r(1) assms(2) by (simp add: list_all_iff)
  have i: "Inv (game_loop c frs)"
    using assms(5) assms(4) by (rule game_loop_invariant)
  show ?case
    using snoc.IH [OF r(1)] assms(3) [OF r(2) i] by (simp add: game_loop_snoc [OF q])
qed

lemma run_linear_increase:
  assumes "list_all linear_increase frs"
  shows "linear_target_speed (game_loop c frs) =
    (ramp_up (linear_speed_increase c) (max_linear_speed c) ^^ length frs) (linear_target_speed c)"
  by (rule game_loop_funpow [OF assms, where Inv = "\<lambda>c'. linear_speed_increase c' = linear_speed_increase c
      \<and> max_linear_speed c' = max_linear_speed c"])
     (simp_all add: linear_increase_def parse_events_linear)

lemma run_angular_increase:
  assumes "list_all angular_increase frs"
  shows "angular_target_speed (game_loop c frs) =
    (ramp_up (angular_speed_increase c) (max_angular_speed c) ^^ length frs) (angular_target_speed c)"
  by (rule game_loop_funpow [OF assms, where Inv = "\<lambda>c'. angular_speed_increase c' = angular_speed_increase c
      \<and> max_angular_speed c' = max_angular_speed c"])
     (simp_all add: angular_increase_def parse_events_angular)





lemma run_linear_released:
  assumes "list_all linear_released frs"
  shows "linear_target_speed (game_loop c frs) =
    (decay (linear_speed_increase c) 0 ^^ length frs) (linear_target_speed c)"
  by (rule game_loop_funpow [OF assms, where Inv = "\<lambda>c'. linear_speed_increase c' = linear_speed_increase c"])
     (simp_all add: linear_released_def parse_events_linear)

lemma run_angular_released:
  assumes "list_all angular_released frs"
  shows "angular_target_speed (game_loop c frs) =
    (decay (angular_speed_increase c) 0 ^^ length frs) (angular_target_speed c)"
  by (rule game_loop_funpow [OF assms, where Inv = "\<lambda>c'. angular_speed_increase c' = angular_speed_increase c"])
     (simp_all add: angular_released_def parse_events_angular)

section \<open>Concrete runs\<close>

lemma list_all_replicate [simp]: "list_all P (replicate n x) \<longleftrightarrow> n = 0 \<or> P x"
  by (cases n) (auto simp: list_all_iff)

lemma held_frames [simp]:
  "linear_increase (held ks) \<longleftrightarrow> K_UP \<in> set ks \<or> K_w \<in> set ks"
  "angular_increase (held ks) \<longleftrightarrow>
     K_LEFT \<notin> set ks \<and> K_a \<notin> set ks \<and> (K_RIGHT \<in> set ks \<or> K_d \<in> set ks)"
  "front_drum_increase (held ks) \<longleftrightarrow> K_f \<in> set ks"
  "front_arm_increase (held ks) \<longleftrightarrow> K_g \<in> set ks"
  "back_arm_increase (held ks) \<longleftrightarrow> K_h \<in> set ks"
  "back_drum_increase (held ks) \<longleftrightarrow> K_j \<in> set ks"
  "linear_released (held ks) \<longleftrightarrow>
     K_UP \<notin> set ks \<and> K_w \<notin> set ks \<and> K_DOWN \<notin> set ks \<and> K_s \<notin> set ks"
  "angular_released (held ks) \<longleftrightarrow>
     K_LEFT \<notin> set ks \<and> K_a \<notin> set ks \<and> K_RIGHT \<notin> set ks \<and> K_d \<notin> set ks"
  by (simp_all add: increase_defs linear_released_def angular_released_def)

text \<open>The linear speed while the up key is held from the start, and after its release.\<close>

lemma linear_up_from_init:
  "linear_target_speed (game_loop init (replicate n (held [K_UP]))) =
     (ramp_up (5764607523034235 / 576460752303423488) (1 / 2) ^^ n) 0"
  using run_linear_increase [of "replicate n (held [K_UP])" init] by (simp add: init_fields)

lemma ramp_up_linear_values:
  "(ramp_up (5764607523034235 / 576460752303423488) (1 / 2) ^^ 6) 0 = 8646911284551353 / 144115188075855872"
  "(ramp_up (5764607523034235 / 576460752303423488) (1 / 2) ^^ 49) 0 = 8827055269646177 / 18014398509481984"
  "(ramp_up (5764607523034235 / 576460752303423488) (1 / 2) ^^ 50) 0 = 1 / 2"
  by (simp_all add: eval_nat_numeral ramp_up_def fl_eval)

lemma decay_linear_values:
  "map (\<lambda>n. (decay (5764607523034235 / 576460752303423488) 0 ^^ n) (1 / 2)) [1, 2, 3, 4, 5, 6, 7, 8, 9, 10] =
     [1080863910568919 / 2251799813685248,
      517913957147607 / 1125899906842624,
      990791918021509 / 2251799813685248,
      236438980436951 / 562949953421312,
      900719925474099 / 2251799813685248,
      427841964600197 / 1125899906842624,
      810647932926689 / 2251799813685248,
      95701492081623 / 281474976710656,
      720575940379279 / 2251799813685248,
      337769972052787 / 1125899906842624]"
  by (simp add: eval_nat_numeral decay_def fl_eval)


lemma init_doubles:
  "is_double (5764607523034235 / 576460752303423488)" "is_double (1 / 2)"
  using is_double_fl [of "1 / 100"] is_double_fl [of "1 / 2"] by (simp_all only: init_constants)

lemma linear_released_after_up:
  "linear_target_speed (game_loop init (replicate 60 (held [K_UP]) @ replicate n (held []))) =
     (decay (5764607523034235 / 576460752303423488) 0 ^^ n) (1 / 2)"
proof -
  have 60: "linear_target_speed (game_loop init (replicate 60 (held [K_UP]))) = 1 / 2"
    using ramp_up_funpow_max [OF _ init_doubles(2) ramp_up_linear_values(3), of 10]
    by (simp add: linear_up_from_init)
  have "game_loop init (replicate 60 (held [K_UP]) @ replicate n (held [])) =
      game_loop (game_loop init (replicate 60 (held [K_UP]))) (replicate n (held []))"
    by (rule game_loop_append) simp
  then show ?thesis
    using run_linear_released [of "replicate n (held [])" "game_loop init (replicate 60 (held [K_UP]))"]
    by (simp add: 60 init_fields)
qed

section \<open>Every reachable state is ready for a run of increases\<close>




section \<open>The frame bound of the specification\<close>




subsection \<open>Thresholds\<close>





subsection \<open>Rounding on the grid of \<open>2\<^sup>-\<^sup>5\<^sup>6\<close>\<close>






lemma of56_less: "of56 a < of56 b \<longleftrightarrow> a < b"
  by (simp add: of56_def divide_less_cancel)

lemma of56_eq: "of56 a = of56 b \<longleftrightarrow> a = b"
  by (simp add: of56_def)










subsection \<open>Tables\<close>










section \<open>The light levels\<close>

lemma light_level_cases:
  assumes "v \<in> light_levels"
  obtains n :: int where "v = of_int n" "0 \<le> n" "n \<le> 100" "n mod 10 = 0"
proof -
  from assms consider "v = 0" | "v = 10" | "v = 20" | "v = 30" | "v = 40" | "v = 50"
    | "v = 60" | "v = 70" | "v = 80" | "v = 90" | "v = 100"
    unfolding light_levels_def by blast
  then show ?thesis
  proof cases
    case 1 then show ?thesis using that [of 0] by simp
  next
    case 2 then show ?thesis using that [of 10] by simp
  next
    case 3 then show ?thesis using that [of 20] by simp
  next
    case 4 then show ?thesis using that [of 30] by simp
  next
    case 5 then show ?thesis using that [of 40] by simp
  next
    case 6 then show ?thesis using that [of 50] by simp
  next
    case 7 then show ?thesis using that [of 60] by simp
  next
    case 8 then show ?thesis using that [of 70] by simp
  next
    case 9 then show ?thesis using that [of 80] by simp
  next
    case 10 then show ?thesis using that [of 90] by simp
  next
    case 11 then show ?thesis using that [of 100] by simp
  qed
qed

lemma light_level_of_int:
  assumes "0 \<le> n" "n \<le> 100" "n mod 10 = 0"
  shows "(of_int n :: rat) \<in> light_levels"
proof -
  from assms obtain k where k: "n = 10 * k" by (metis mod_eq_0_iff_dvd dvdE)
  with assms have "0 \<le> k" "k \<le> 10" by simp_all
  then have "k = 0 \<or> k = 1 \<or> k = 2 \<or> k = 3 \<or> k = 4 \<or> k = 5 \<or> k = 6 \<or> k = 7 \<or> k = 8 \<or> k = 9 \<or> k = 10"
    by arith
  then show ?thesis unfolding k light_levels_def by (elim disjE) simp_all
qed

lemma light_level_step:
  assumes "v \<in> light_levels"
  shows "max (min ((if shift then fsub else fadd) v (of_int 10)) 100) 0 \<in> light_levels"
proof -
  from assms obtain n :: int where n: "v = of_int n" "0 \<le> n" "n \<le> 100" "n mod 10 = 0"
    by (rule light_level_cases)
  have up: "max (min (fadd v (of_int 10)) 100) 0 = of_int (max (min (n + 10) 100) 0)"
    unfolding n(1) light_step_exact(1) [OF n(2,3)] by (simp only: of_int_max of_int_min of_int_numeral of_int_0)
  have down: "max (min (fsub v (of_int 10)) 100) 0 = of_int (max (min (n - 10) 100) 0)"
    unfolding n(1) light_step_exact(2) [OF n(2,3)] by (simp only: of_int_max of_int_min of_int_numeral of_int_0)
  have u: "max (min (n + 10) 100) 0 = (if n \<le> 90 then n + 10 else 100)"
    and d: "max (min (n - 10) 100) 0 = (if 10 \<le> n then n - 10 else 0)"
    using n(2,3) by simp_all
  have "0 \<le> max (min (n + 10) 100) 0 \<and> max (min (n + 10) 100) 0 \<le> 100 \<and> max (min (n + 10) 100) 0 mod 10 = 0"
    unfolding u using n(2,3,4) by simp
  then have 1: "(of_int (max (min (n + 10) 100) 0) :: rat) \<in> light_levels"
    by (intro light_level_of_int) simp_all
  have "0 \<le> max (min (n - 10) 100) 0 \<and> max (min (n - 10) 100) 0 \<le> 100 \<and> max (min (n - 10) 100) 0 mod 10 = 0"
    unfolding d using n(2,3,4) by simp
  then have 2: "(of_int (max (min (n - 10) 100) 0) :: rat) \<in> light_levels"
    by (intro light_level_of_int) simp_all
  show ?thesis using 1 2 by (simp only: up down split: if_split) simp
qed

lemma keyup_light_levels:
  assumes "lights_increase c = 10" "\<And>s. lights_value c s \<in> light_levels"
  shows "lights_value (fst (keyup c k shift)) s \<in> light_levels"
proof (cases "sensor_of_key k")
  case None
  then show ?thesis using assms(2) by (simp add: keyup_lights)
next
  case (Some t)
  have "max (min ((if shift then fsub else fadd) (lights_value c t) (of_int 10)) 100) 0 \<in> light_levels"
    using assms(2) by (rule light_level_step)
  then show ?thesis using Some assms by (simp add: keyup_lights)
qed

lemma handle_events_light_levels:
  assumes "lights_increase c = 10" "\<And>s. lights_value c s \<in> light_levels"
  shows "lights_value (fst (snd (handle_events c es))) s \<in> light_levels"
  using assms
proof (induction es arbitrary: c s)
  case Nil
  then show ?case by simp
next
  case (Cons e es)
  show ?case
  proof (cases "etype e")
    case QUIT
    then show ?thesis using Cons.prems by simp
  next
    case OTHER_EVENT
    then show ?thesis using Cons.IH [OF Cons.prems] by simp
  next
    case (KEYUP k)
    show ?thesis
    proof (cases "is_quit_shortcut k")
      case True
      then show ?thesis using KEYUP Cons.prems by simp
    next
      case False
      let ?c1 = "fst (keyup c k (shift_held e))"
      have 1: "lights_increase ?c1 = 10" using Cons.prems(1) by simp
      have 2: "lights_value ?c1 t \<in> light_levels" for t
        using Cons.prems by (rule keyup_light_levels)
      have "lights_value (fst (snd (handle_events ?c1 es))) s \<in> light_levels"
        using 1 2 by (rule Cons.IH)
      then show ?thesis using KEYUP False by (simp add: split_beta)
    qed
  qed
qed

lemma reachable_light_levels: "lights_value (game_loop init frs) s \<in> light_levels"
proof -
  have "lights_increase (game_loop init frs) = 10 \<and>
      (\<forall>s. lights_value (game_loop init frs) s \<in> light_levels)"
  proof (rule game_loop_invariant [where P = "\<lambda>c. lights_increase c = 10 \<and>
      (\<forall>s. lights_value c s \<in> light_levels)"])
    show "lights_increase init = 10 \<and> (\<forall>s. lights_value init s \<in> light_levels)"
      by (simp add: init_def light_levels_def)
  next
    fix c :: keyboard_control and fr
    assume "lights_increase c = 10 \<and> (\<forall>s. lights_value c s \<in> light_levels)"
    then show "lights_increase (fst (snd (parse_events c fr))) = 10 \<and>
        (\<forall>s. lights_value (fst (snd (parse_events c fr))) s \<in> light_levels)"
      by (simp add: parse_events_lights handle_events_light_levels)
  qed
  then show ?thesis by simp
qed

section \<open>The tables of reachable values\<close>







































































































































































































































































































































































































section \<open>Runs of increases from the states of a run\<close>









section \<open>Clamp bounds\<close>

text \<open>
  C1. After any sequence of frames from the initial state of the controller, each of
  the six values lies between minus its maximum and its maximum, the bounds included:
  0.5 for the linear and the angular speed, 0.17 for the drum speeds and 2.36 for the
  arm angles (each the binary64 value of the literal).
\<close>

theorem values_within_bounds:
  "within_bounds (game_loop init frs) \<and>
   max_linear_speed (game_loop init frs) = 1 / 2 \<and>
   max_angular_speed (game_loop init frs) = 1 / 2 \<and>
   max_drum_speed (game_loop init frs) = 6124895493223875 / 36028797018963968 \<and>
   max_arm_angle (game_loop init frs) = 5314247560297185 / 2251799813685248"
  using reachable_within_bounds [of frs] reachable_configured [of frs]
  by (simp add: configured_def init_eval)

section \<open>Both keys of a channel pressed\<close>

text \<open>
  C2, as the code has it. With both keys of a channel pressed the first branch of the
  channel's \<^verbatim>\<open>if\<close> is taken. For the linear speed, the drum speeds and the arm angles
  the first branch is the increase, so the value is the one the frame gives with the
  decrease keys released. For the angular speed the first branch is the decrease (left,
  a), so the value is the one the frame gives with the increase keys (right, d) released.
\<close>

theorem both_keys_first_branch:
  "((pressed fr K_UP \<or> pressed fr K_w) \<longrightarrow>
      linear_target_speed (fst (snd (parse_events c fr))) =
      linear_target_speed (fst (snd (parse_events c
        (fr\<lparr>pressed := (pressed fr)(K_DOWN := False, K_s := False)\<rparr>))))) \<and>
   ((pressed fr K_LEFT \<or> pressed fr K_a) \<longrightarrow>
      angular_target_speed (fst (snd (parse_events c fr))) =
      angular_target_speed (fst (snd (parse_events c
        (fr\<lparr>pressed := (pressed fr)(K_RIGHT := False, K_d := False)\<rparr>))))) \<and>
   (pressed fr K_f \<longrightarrow>
      front_drum_target_speed (fst (snd (parse_events c fr))) =
      front_drum_target_speed (fst (snd (parse_events c
        (fr\<lparr>pressed := (pressed fr)(K_v := False)\<rparr>))))) \<and>
   (pressed fr K_g \<longrightarrow>
      front_arm_target_angle (fst (snd (parse_events c fr))) =
      front_arm_target_angle (fst (snd (parse_events c
        (fr\<lparr>pressed := (pressed fr)(K_b := False)\<rparr>))))) \<and>
   (pressed fr K_h \<longrightarrow>
      back_arm_target_angle (fst (snd (parse_events c fr))) =
      back_arm_target_angle (fst (snd (parse_events c
        (fr\<lparr>pressed := (pressed fr)(K_n := False)\<rparr>))))) \<and>
   (pressed fr K_j \<longrightarrow>
      back_drum_target_speed (fst (snd (parse_events c fr))) =
      back_drum_target_speed (fst (snd (parse_events c
        (fr\<lparr>pressed := (pressed fr)(K_m := False)\<rparr>)))))"
  by (simp add: parse_events_linear parse_events_angular parse_events_front_drum_value
      parse_events_front_arm_value parse_events_back_arm_value parse_events_back_drum_value)

theorem both_keys_first_branch_witness:
  "pressed all_pairs K_UP \<and> pressed all_pairs K_DOWN \<and>
   linear_target_speed (fst (snd (parse_events init all_pairs))) =
     5764607523034235 / 576460752303423488 \<and>
   pressed all_pairs K_LEFT \<and> pressed all_pairs K_RIGHT \<and>
   angular_target_speed (fst (snd (parse_events init all_pairs))) =
     - (5764607523034235 / 576460752303423488) \<and>
   pressed all_pairs K_f \<and> pressed all_pairs K_v \<and>
   front_drum_target_speed (fst (snd (parse_events init all_pairs))) =
     1224979098644775 / 72057594037927936 \<and>
   pressed all_pairs K_g \<and> pressed all_pairs K_b \<and>
   front_arm_target_angle (fst (snd (parse_events init all_pairs))) =
     7268809798575981 / 9007199254740992 \<and>
   pressed all_pairs K_h \<and> pressed all_pairs K_n \<and>
   back_arm_target_angle (fst (snd (parse_events init all_pairs))) =
     7268809798575981 / 9007199254740992 \<and>
   pressed all_pairs K_j \<and> pressed all_pairs K_m \<and>
   back_drum_target_speed (fst (snd (parse_events init all_pairs))) =
     1224979098644775 / 72057594037927936"
proof -
  have ev: "events (all_pairs\<lparr>pressed := p\<rparr>) = []" for p
    by (simp add: all_pairs_def)
  show ?thesis
    using both_keys_first_branch [of all_pairs init]
    by (simp add: parse_events_linear parse_events_angular parse_events_front_drum_value
      parse_events_front_arm_value parse_events_back_arm_value parse_events_back_drum_value
      ev all_pairs_def init_eval ramp_up_def ramp_down_def fl_eval)
qed

text \<open>
  C2 as it is stated fails for the angular speed: with left and right both pressed the
  first frame of a run gives \<open>-0.01\<close>, and with right alone it gives \<open>0.01\<close>.
\<close>

theorem both_keys_angular_counterexample:
  "angular_target_speed (fst (snd (parse_events init (held [K_LEFT, K_RIGHT])))) =
     - (5764607523034235 / 576460752303423488) \<and>
   angular_target_speed (fst (snd (parse_events init (held [K_RIGHT])))) =
     5764607523034235 / 576460752303423488 \<and>
   angular_target_speed (fst (snd (parse_events init (held [K_LEFT, K_RIGHT])))) \<noteq>
     angular_target_speed (fst (snd (parse_events init (held [K_RIGHT]))))"
  by (simp add: parse_events_angular init_eval ramp_up_def ramp_down_def fl_eval)

section \<open>The commands of a frame\<close>

text \<open>
  C3, as the code has it. On a frame on which \<^verbatim>\<open>parse_events\<close> does not return
  \<open>True\<close>, the commands sent after those of the queued events are: one velocity command
  with the new linear and angular speed, always; then, for each drum and arm channel in
  the order front drum, front arm, back arm, back drum, one command with the channel's
  new value if and only if one of the channel's two keys is pressed.
\<close>

theorem commands_of_a_frame:
  "\<not> list_ex quit_event (events fr) \<longrightarrow>
   snd (snd (parse_events c fr)) =
     snd (snd (handle_events c (events fr))) @
     [apply_velocity_control (linear_target_speed (fst (snd (parse_events c fr))))
        (angular_target_speed (fst (snd (parse_events c fr))))] @
     (if pressed fr K_f \<or> pressed fr K_v
      then [set_front_drums_target_speed (front_drum_target_speed (fst (snd (parse_events c fr))))] else []) @
     (if pressed fr K_g \<or> pressed fr K_b
      then [set_front_arm_angle (front_arm_target_angle (fst (snd (parse_events c fr))))] else []) @
     (if pressed fr K_h \<or> pressed fr K_n
      then [set_back_arm_angle (back_arm_target_angle (fst (snd (parse_events c fr))))] else []) @
     (if pressed fr K_j \<or> pressed fr K_m
      then [set_back_drums_target_speed (back_drum_target_speed (fst (snd (parse_events c fr))))] else [])"
proof
  assume q: "\<not> list_ex quit_event (events fr)"
  show "snd (snd (parse_events c fr)) =
     snd (snd (handle_events c (events fr))) @
     [apply_velocity_control (linear_target_speed (fst (snd (parse_events c fr))))
        (angular_target_speed (fst (snd (parse_events c fr))))] @
     (if pressed fr K_f \<or> pressed fr K_v
      then [set_front_drums_target_speed (front_drum_target_speed (fst (snd (parse_events c fr))))] else []) @
     (if pressed fr K_g \<or> pressed fr K_b
      then [set_front_arm_angle (front_arm_target_angle (fst (snd (parse_events c fr))))] else []) @
     (if pressed fr K_h \<or> pressed fr K_n
      then [set_back_arm_angle (back_arm_target_angle (fst (snd (parse_events c fr))))] else []) @
     (if pressed fr K_j \<or> pressed fr K_m
      then [set_back_drums_target_speed (back_drum_target_speed (fst (snd (parse_events c fr))))] else [])"
    unfolding parse_events_state' [OF q] parse_events_commands
    using q by (simp only: if_False) (rule arg_cong [OF update_targets_commands])
qed


theorem commands_of_a_frame_witness:
  "\<not> list_ex quit_event (events (held [K_f])) \<and>
   snd (snd (parse_events init (held [K_f]))) =
     [apply_velocity_control 0 0,
      set_front_drums_target_speed (1224979098644775 / 72057594037927936)]"
proof -
  have "linear_target_speed (fst (snd (parse_events init (held [K_f])))) = 0"
    by (simp add: parse_events_linear init_eval decay_def fl_eval)
  moreover have "angular_target_speed (fst (snd (parse_events init (held [K_f])))) = 0"
    by (simp add: parse_events_angular init_eval decay_def fl_eval)
  moreover have "front_drum_target_speed (fst (snd (parse_events init (held [K_f])))) =
      1224979098644775 / 72057594037927936"
    by (simp add: parse_events_front_drum_value init_eval ramp_up_def fl_eval)
  ultimately show ?thesis
    using commands_of_a_frame [of "held [K_f]" init] by simp
qed

text \<open>
  C3 as it is stated fails on the first frame of a run with no key pressed: the only
  command sent is the velocity command, and no drum or arm command.
\<close>

theorem commands_counterexample:
  "snd (snd (parse_events init (held []))) = [apply_velocity_control 0 0]"
proof -
  have "linear_target_speed (fst (update_targets init (pressed (held [])))) = 0"
    using parse_events_linear [of init "held []"]
    by (simp add: parse_events_state' init_eval decay_def fl_eval)
  moreover have "angular_target_speed (fst (update_targets init (pressed (held [])))) = 0"
    using parse_events_angular [of init "held []"]
    by (simp add: parse_events_state' init_eval decay_def fl_eval)
  ultimately show ?thesis
    by (simp add: parse_events_commands update_targets_commands)
qed

section \<open>Decay of the speeds\<close>

text \<open>
  C4. Let the linear speed be a float and its step non-negative, and let neither key of
  the linear speed be pressed on the frames \<open>frs\<close> and on the frame \<open>fr\<close> after them.
  Then \<open>fr\<close> sets the speed to \<^verbatim>\<open>max(v - 2*step, 0)\<close>, \<open>v\<close> being the speed
  before \<open>fr\<close>; that is never negative, and never above \<open>v\<close> when \<open>v\<close> is not
  negative; a speed that starts non-negative stays between 0 and its start, and a speed
  that starts at or below 0 is 0 after the first such frame and remains 0. The same holds
  for the angular speed.
\<close>

theorem decay_moves_toward_zero:
  "(list_all linear_released frs \<and> linear_released fr \<and>
    0 \<le> linear_speed_increase c \<and> is_double (linear_target_speed c) \<longrightarrow>
      linear_target_speed (game_loop c (frs @ [fr])) =
        max (fsub (linear_target_speed (game_loop c frs)) (fmul 2 (linear_speed_increase c))) 0 \<and>
      0 \<le> linear_target_speed (game_loop c (frs @ [fr])) \<and>
      linear_target_speed (game_loop c (frs @ [fr])) \<le> max (linear_target_speed (game_loop c frs)) 0 \<and>
      linear_target_speed (game_loop c frs) \<le> max (linear_target_speed c) 0 \<and>
      (linear_target_speed c \<le> 0 \<longrightarrow> linear_target_speed (game_loop c (frs @ [fr])) = 0)) \<and>
   (list_all angular_released frs \<and> angular_released fr \<and>
    0 \<le> angular_speed_increase c \<and> is_double (angular_target_speed c) \<longrightarrow>
      angular_target_speed (game_loop c (frs @ [fr])) =
        max (fsub (angular_target_speed (game_loop c frs)) (fmul 2 (angular_speed_increase c))) 0 \<and>
      0 \<le> angular_target_speed (game_loop c (frs @ [fr])) \<and>
      angular_target_speed (game_loop c (frs @ [fr])) \<le> max (angular_target_speed (game_loop c frs)) 0 \<and>
      angular_target_speed (game_loop c frs) \<le> max (angular_target_speed c) 0 \<and>
      (angular_target_speed c \<le> 0 \<longrightarrow> angular_target_speed (game_loop c (frs @ [fr])) = 0))"
proof (intro conjI impI)
  assume a: "list_all linear_released frs \<and> linear_released fr \<and>
    0 \<le> linear_speed_increase c \<and> is_double (linear_target_speed c)"
  then have r: "list_all linear_released frs" "linear_released fr" "list_all linear_released (frs @ [fr])"
    and s: "0 \<le> linear_speed_increase c" and d: "is_double (linear_target_speed c)" by simp_all
  note 1 = released_run_linear [OF r(1) s d]
  note 2 = released_run_linear [OF r(3) s d]
  show v: "linear_target_speed (game_loop c (frs @ [fr])) =
      max (fsub (linear_target_speed (game_loop c frs)) (fmul 2 (linear_speed_increase c))) 0"
    by (simp add: game_loop_snoc [OF released_not_quit(1) [OF r(1)]] released_frame_linear [OF r(2)] decay_def)
  show "0 \<le> linear_target_speed (game_loop c (frs @ [fr]))" unfolding v by simp
  show "linear_target_speed (game_loop c (frs @ [fr])) \<le> max (linear_target_speed (game_loop c frs)) 0"
    using decay_nonneg(2) [OF s conjunct1 [OF 1]] unfolding v decay_def .
  show "linear_target_speed (game_loop c frs) \<le> max (linear_target_speed c) 0" using 1 by simp
  show "linear_target_speed (game_loop c (frs @ [fr])) = 0" if "linear_target_speed c \<le> 0"
    using 2 that \<open>0 \<le> linear_target_speed (game_loop c (frs @ [fr]))\<close> by (simp add: max_def)
next
  assume a: "list_all angular_released frs \<and> angular_released fr \<and>
    0 \<le> angular_speed_increase c \<and> is_double (angular_target_speed c)"
  then have r: "list_all angular_released frs" "angular_released fr" "list_all angular_released (frs @ [fr])"
    and s: "0 \<le> angular_speed_increase c" and d: "is_double (angular_target_speed c)" by simp_all
  note 1 = released_run_angular [OF r(1) s d]
  note 2 = released_run_angular [OF r(3) s d]
  show v: "angular_target_speed (game_loop c (frs @ [fr])) =
      max (fsub (angular_target_speed (game_loop c frs)) (fmul 2 (angular_speed_increase c))) 0"
    by (simp add: game_loop_snoc [OF released_not_quit(2) [OF r(1)]] released_frame_angular [OF r(2)] decay_def)
  show "0 \<le> angular_target_speed (game_loop c (frs @ [fr]))" unfolding v by simp
  show "angular_target_speed (game_loop c (frs @ [fr])) \<le> max (angular_target_speed (game_loop c frs)) 0"
    using decay_nonneg(2) [OF s conjunct1 [OF 1]] unfolding v decay_def .
  show "angular_target_speed (game_loop c frs) \<le> max (angular_target_speed c) 0" using 1 by simp
  show "angular_target_speed (game_loop c (frs @ [fr])) = 0" if "angular_target_speed c \<le> 0"
    using 2 that \<open>0 \<le> angular_target_speed (game_loop c (frs @ [fr]))\<close> by (simp add: max_def)
qed


theorem decay_moves_toward_zero_witness:
  "list_all linear_released [held []] \<and> linear_released (held []) \<and>
   0 \<le> linear_speed_increase after_three \<and> is_double (linear_target_speed after_three) \<and>
   linear_target_speed after_three = 1080863910568919 / 36028797018963968 \<and>
   linear_target_speed (game_loop after_three [held []]) = 2882303761517117 / 288230376151711744 \<and>
   linear_target_speed (game_loop after_three ([held []] @ [held []])) = 0 \<and>
   list_all angular_released [held []] \<and> angular_released (held []) \<and>
   0 \<le> angular_speed_increase after_three \<and> is_double (angular_target_speed after_three) \<and>
   angular_target_speed after_three = 1080863910568919 / 36028797018963968 \<and>
   angular_target_speed (game_loop after_three [held []]) = 2882303761517117 / 288230376151711744 \<and>
   angular_target_speed (game_loop after_three ([held []] @ [held []])) = 0"
proof -
  have inc: "linear_speed_increase after_three = 5764607523034235 / 576460752303423488"
    "angular_speed_increase after_three = 5764607523034235 / 576460752303423488"
    by (simp_all add: after_three_def init_fields)
  have lin: "linear_target_speed after_three = 1080863910568919 / 36028797018963968"
    unfolding after_three_def
    using run_linear_increase [of "replicate 3 (held [K_UP, K_RIGHT])" init]
    by (simp add: init_fields eval_nat_numeral ramp_up_def fl_eval)
  have ang: "angular_target_speed after_three = 1080863910568919 / 36028797018963968"
    unfolding after_three_def
    using run_angular_increase [of "replicate 3 (held [K_UP, K_RIGHT])" init]
    by (simp add: init_fields eval_nat_numeral ramp_up_def fl_eval)
  have dbl: "is_double (1080863910568919 / 36028797018963968)"
    by (simp add: is_double_def fl_eval)
  have lin1: "linear_target_speed (game_loop after_three [held []]) =
      2882303761517117 / 288230376151711744"
    by (simp add: parse_events_linear inc lin decay_def fl_eval)
  have ang1: "angular_target_speed (game_loop after_three [held []]) =
      2882303761517117 / 288230376151711744"
    by (simp add: parse_events_angular inc ang decay_def fl_eval)
  have h1: "list_all linear_released [held []] \<and> linear_released (held []) \<and>
      0 \<le> linear_speed_increase after_three \<and> is_double (linear_target_speed after_three)"
    by (simp add: inc lin dbl)
  have h2: "list_all angular_released [held []] \<and> angular_released (held []) \<and>
      0 \<le> angular_speed_increase after_three \<and> is_double (angular_target_speed after_three)"
    by (simp add: inc ang dbl)
  note t = decay_moves_toward_zero [of "[held []]" "held []" after_three]
  have r1: "linear_target_speed (game_loop after_three ([held []] @ [held []])) =
      max (fsub (linear_target_speed (game_loop after_three [held []]))
        (fmul 2 (linear_speed_increase after_three))) 0"
    using t [THEN conjunct1, THEN mp, OF h1] by (rule conjunct1)
  have r2: "angular_target_speed (game_loop after_three ([held []] @ [held []])) =
      max (fsub (angular_target_speed (game_loop after_three [held []]))
        (fmul 2 (angular_speed_increase after_three))) 0"
    using t [THEN conjunct2, THEN mp, OF h2] by (rule conjunct1)
  have z1: "linear_target_speed (game_loop after_three ([held []] @ [held []])) = 0"
    unfolding r1 lin1 inc by (simp add: fl_eval)
  have z2: "angular_target_speed (game_loop after_three ([held []] @ [held []])) = 0"
    unfolding r2 ang1 inc by (simp add: fl_eval)
  show ?thesis
    using h1 h2 lin ang lin1 ang1 z1 z2 by (simp only: simp_thms)
qed

section \<open>Hold-and-ramp channels\<close>

text \<open>
  C5. On a frame on which neither key of a hold-and-ramp channel (front drum: f and v,
  front arm: g and b, back arm: h and n, back drum: j and m) is pressed, the channel
  keeps its value, and so it does over any number of such frames; and the branch of
  such a channel writes no field of the controller but the channel's own value.
\<close>

theorem hold_and_ramp_unchanged:
  "((\<forall>fr \<in> set frs. \<not> pressed fr K_f \<and> \<not> pressed fr K_v) \<longrightarrow>
      front_drum_target_speed (game_loop c frs) = front_drum_target_speed c) \<and>
   ((\<forall>fr \<in> set frs. \<not> pressed fr K_g \<and> \<not> pressed fr K_b) \<longrightarrow>
      front_arm_target_angle (game_loop c frs) = front_arm_target_angle c) \<and>
   ((\<forall>fr \<in> set frs. \<not> pressed fr K_h \<and> \<not> pressed fr K_n) \<longrightarrow>
      back_arm_target_angle (game_loop c frs) = back_arm_target_angle c) \<and>
   ((\<forall>fr \<in> set frs. \<not> pressed fr K_j \<and> \<not> pressed fr K_m) \<longrightarrow>
      back_drum_target_speed (game_loop c frs) = back_drum_target_speed c) \<and>
   fst (update_front_drum c keys) =
     c\<lparr>front_drum_target_speed := front_drum_target_speed (fst (update_front_drum c keys))\<rparr> \<and>
   fst (update_front_arm c keys) =
     c\<lparr>front_arm_target_angle := front_arm_target_angle (fst (update_front_arm c keys))\<rparr> \<and>
   fst (update_back_arm c keys) =
     c\<lparr>back_arm_target_angle := back_arm_target_angle (fst (update_back_arm c keys))\<rparr> \<and>
   fst (update_back_drum c keys) =
     c\<lparr>back_drum_target_speed := back_drum_target_speed (fst (update_back_drum c keys))\<rparr>"
proof (intro conjI impI)
  assume "\<forall>fr \<in> set frs. \<not> pressed fr K_f \<and> \<not> pressed fr K_v"
  then show "front_drum_target_speed (game_loop c frs) = front_drum_target_speed c"
    by (intro game_loop_invariant [where P = "\<lambda>c'. front_drum_target_speed c' = front_drum_target_speed c"])
       (simp_all add: parse_events_front_drum)
next
  assume "\<forall>fr \<in> set frs. \<not> pressed fr K_g \<and> \<not> pressed fr K_b"
  then show "front_arm_target_angle (game_loop c frs) = front_arm_target_angle c"
    by (intro game_loop_invariant [where P = "\<lambda>c'. front_arm_target_angle c' = front_arm_target_angle c"])
       (simp_all add: parse_events_front_arm)
next
  assume "\<forall>fr \<in> set frs. \<not> pressed fr K_h \<and> \<not> pressed fr K_n"
  then show "back_arm_target_angle (game_loop c frs) = back_arm_target_angle c"
    by (intro game_loop_invariant [where P = "\<lambda>c'. back_arm_target_angle c' = back_arm_target_angle c"])
       (simp_all add: parse_events_back_arm)
next
  assume "\<forall>fr \<in> set frs. \<not> pressed fr K_j \<and> \<not> pressed fr K_m"
  then show "back_drum_target_speed (game_loop c frs) = back_drum_target_speed c"
    by (intro game_loop_invariant [where P = "\<lambda>c'. back_drum_target_speed c' = back_drum_target_speed c"])
       (simp_all add: parse_events_back_drum)
next
  show "fst (update_front_drum c keys) =
     c\<lparr>front_drum_target_speed := front_drum_target_speed (fst (update_front_drum c keys))\<rparr>"
    by (simp add: update_front_drum_def Let_def)
next
  show "fst (update_front_arm c keys) =
     c\<lparr>front_arm_target_angle := front_arm_target_angle (fst (update_front_arm c keys))\<rparr>"
    by (simp add: update_front_arm_def Let_def)
next
  show "fst (update_back_arm c keys) =
     c\<lparr>back_arm_target_angle := back_arm_target_angle (fst (update_back_arm c keys))\<rparr>"
    by (simp add: update_back_arm_def Let_def)
next
  show "fst (update_back_drum c keys) =
     c\<lparr>back_drum_target_speed := back_drum_target_speed (fst (update_back_drum c keys))\<rparr>"
    by (simp add: update_back_drum_def Let_def)
qed

theorem hold_and_ramp_unchanged_witness:
  "list_all (\<lambda>fr. \<not> pressed fr K_f \<and> \<not> pressed fr K_v) [held [], held [K_UP, K_LEFT], held []] \<and>
   list_all (\<lambda>fr. \<not> pressed fr K_g \<and> \<not> pressed fr K_b) [held [], held [K_UP, K_LEFT], held []] \<and>
   list_all (\<lambda>fr. \<not> pressed fr K_h \<and> \<not> pressed fr K_n) [held [], held [K_UP, K_LEFT], held []] \<and>
   list_all (\<lambda>fr. \<not> pressed fr K_j \<and> \<not> pressed fr K_m) [held [], held [K_UP, K_LEFT], held []] \<and>
   front_drum_target_speed (game_loop init [held [], held [K_UP, K_LEFT], held []]) = 0 \<and>
   front_arm_target_angle (game_loop init [held [], held [K_UP, K_LEFT], held []]) = 889460926405673 / 1125899906842624 \<and>
   back_arm_target_angle (game_loop init [held [], held [K_UP, K_LEFT], held []]) = 889460926405673 / 1125899906842624 \<and>
   back_drum_target_speed (game_loop init [held [], held [K_UP, K_LEFT], held []]) = 0"
  using hold_and_ramp_unchanged [of "[held [], held [K_UP, K_LEFT], held []]" init "\<lambda>k. False"]
  by (simp add: init_eval)

section \<open>Runs of increases\<close>




section \<open>The scenario of the specification\<close>

text \<open>
  C7, as binary64 arithmetic has it. From the initial state with the up key held, the
  linear speed is below 0.5 after each of the first 49 frames (0.49000000000000027
  after the 49th) and exactly 0.5 after each of the frames 50 to 60. With all keys then
  released it is, after each of the next ten frames, 0.48, 0.45999999999999996,
  0.43999999999999995, 0.41999999999999993, 0.3999999999999999, 0.3799999999999999,
  0.3599999999999999, 0.33999999999999986, 0.31999999999999984 and 0.2999999999999998:
  each frame subtracts 0.02 and rounds, and the last value is within \<open>2\<^sup>-\<^sup>5\<^sup>2\<close> of 0.3.
\<close>

theorem linear_scenario:
  "linear_target_speed (game_loop init (replicate 49 (held [K_UP]))) =
     8827055269646177 / 18014398509481984 \<and>
   list_all (\<lambda>n. linear_target_speed (game_loop init (replicate n (held [K_UP]))) < 1 / 2) [0..<50] \<and>
   list_all (\<lambda>n. linear_target_speed (game_loop init (replicate n (held [K_UP]))) = 1 / 2) [50..<61] \<and>
   map (\<lambda>n. linear_target_speed (game_loop init (replicate 60 (held [K_UP]) @ replicate n (held []))))
     [1, 2, 3, 4, 5, 6, 7, 8, 9, 10] =
     [1080863910568919 / 2251799813685248,
      517913957147607 / 1125899906842624,
      990791918021509 / 2251799813685248,
      236438980436951 / 562949953421312,
      900719925474099 / 2251799813685248,
      427841964600197 / 1125899906842624,
      810647932926689 / 2251799813685248,
      95701492081623 / 281474976710656,
      720575940379279 / 2251799813685248,
      337769972052787 / 1125899906842624] \<and>
   \<bar>linear_target_speed (game_loop init (replicate 60 (held [K_UP]) @ replicate 10 (held []))) - 3 / 10\<bar>
     \<le> 1 / 2 ^ 52"
proof (intro conjI)
  let ?f = "ramp_up (5764607523034235 / 576460752303423488) (1 / 2)"
  have inc: "(0 :: rat) \<le> 5764607523034235 / 576460752303423488" by simp
  show "linear_target_speed (game_loop init (replicate 49 (held [K_UP]))) =
      8827055269646177 / 18014398509481984"
    by (simp only: linear_up_from_init ramp_up_linear_values)
  show "list_all (\<lambda>n. linear_target_speed (game_loop init (replicate n (held [K_UP]))) < 1 / 2) [0..<50]"
    unfolding list_all_iff linear_up_from_init
  proof
    fix n :: nat
    assume "n \<in> set [0..<50]"
    then have "n < 50" by (simp only: set_upt atLeastLessThan_iff)
    then have n: "n + (49 - n) = 49" by simp
    have "(?f ^^ n) 0 \<le> (?f ^^ (n + (49 - n))) 0"
      using inc by (intro ramp_up_funpow_mono init_doubles) simp_all
    also have "\<dots> < 1 / 2" unfolding n ramp_up_linear_values by simp
    finally show "(?f ^^ n) 0 < 1 / 2" .
  qed
  show "list_all (\<lambda>n. linear_target_speed (game_loop init (replicate n (held [K_UP]))) = 1 / 2) [50..<61]"
    unfolding list_all_iff linear_up_from_init
  proof
    fix n :: nat
    assume "n \<in> set [50..<61]"
    then have "50 \<le> n" by (simp only: set_upt atLeastLessThan_iff)
    then have n: "50 + (n - 50) = n" by simp
    have "(?f ^^ (50 + (n - 50))) 0 = 1 / 2"
      using inc init_doubles(2) ramp_up_linear_values(3) by (rule ramp_up_funpow_max)
    then show "(?f ^^ n) 0 = 1 / 2" unfolding n .
  qed
  show "map (\<lambda>n. linear_target_speed (game_loop init (replicate 60 (held [K_UP]) @ replicate n (held []))))
     [1, 2, 3, 4, 5, 6, 7, 8, 9, 10] =
     [1080863910568919 / 2251799813685248,
      517913957147607 / 1125899906842624,
      990791918021509 / 2251799813685248,
      236438980436951 / 562949953421312,
      900719925474099 / 2251799813685248,
      427841964600197 / 1125899906842624,
      810647932926689 / 2251799813685248,
      95701492081623 / 281474976710656,
      720575940379279 / 2251799813685248,
      337769972052787 / 1125899906842624]"
    by (simp only: linear_released_after_up decay_linear_values)
  have "linear_target_speed (game_loop init (replicate 60 (held [K_UP]) @ replicate 10 (held []))) =
      337769972052787 / 1125899906842624"
    using decay_linear_values by (simp add: linear_released_after_up)
  then show "\<bar>linear_target_speed (game_loop init (replicate 60 (held [K_UP]) @ replicate 10 (held []))) - 3 / 10\<bar>
     \<le> 1 / 2 ^ 52"
    by simp
qed

text \<open>
  C7 as it is stated fails at its last number: after the ten frames with the keys
  released the linear speed is neither the rational 0.3 nor the float 0.3.
\<close>

theorem linear_scenario_counterexample:
  "linear_target_speed (game_loop init (replicate 60 (held [K_UP]) @ replicate 10 (held []))) =
     337769972052787 / 1125899906842624 \<and>
   fl (3 / 10) = 5404319552844595 / 18014398509481984 \<and>
   linear_target_speed (game_loop init (replicate 60 (held [K_UP]) @ replicate 10 (held []))) \<noteq> 3 / 10 \<and>
   linear_target_speed (game_loop init (replicate 60 (held [K_UP]) @ replicate 10 (held []))) \<noteq> fl (3 / 10)"
proof -
  have 1: "linear_target_speed (game_loop init (replicate 60 (held [K_UP]) @ replicate 10 (held []))) =
      337769972052787 / 1125899906842624"
    using decay_linear_values by (simp add: linear_released_after_up)
  have 2: "fl (3 / 10) = 5404319552844595 / 18014398509481984" by (simp add: fl_eval)
  show ?thesis unfolding 1 2 by simp
qed

section \<open>One light toggle\<close>

text \<open>
  C8. A frame whose only queued event is the release of a number key (1 to 8) changes
  the stored percentage of the light that key selects, and of no other light: by the
  float sum with 10, or the float difference when shift is held, clamped to [0, 100].
  Every sensor position is selected by one of the keys.
  When the stored percentage is a whole number between 0 and 100 (after any run from the
  initial state it is a multiple of ten) the sum and the difference are exact, so the
  new percentage is exactly the old one plus or minus 10, clamped to [0, 100].
\<close>

theorem light_toggle:
  "(events fr = [ev] \<and> etype ev = KEYUP k \<and> sensor_of_key k = Some s \<and> lights_increase c = 10 \<longrightarrow>
     lights_value (fst (snd (parse_events c fr))) =
       (lights_value c)(s := max (min ((if shift_held ev then fsub else fadd) (lights_value c s) 10) 100) 0) \<and>
     0 \<le> lights_value (fst (snd (parse_events c fr))) s \<and>
     lights_value (fst (snd (parse_events c fr))) s \<le> 100 \<and>
     (\<forall>n. lights_value c s = of_int n \<and> 0 \<le> n \<and> n \<le> 100 \<longrightarrow>
        lights_value (fst (snd (parse_events c fr))) =
          (lights_value c)(s := of_int (max (min (if shift_held ev then n - 10 else n + 10) 100) 0)))) \<and>
   (\<exists>k'. sensor_of_key k' = Some t)"
proof (intro impI conjI allI)
  assume a: "events fr = [ev] \<and> etype ev = KEYUP k \<and> sensor_of_key k = Some s \<and> lights_increase c = 10"
  then have e: "events fr = [ev]" "etype ev = KEYUP k" "sensor_of_key k = Some s" by simp_all
  show 1: "lights_value (fst (snd (parse_events c fr))) =
       (lights_value c)(s := max (min ((if shift_held ev then fsub else fadd) (lights_value c s) 10) 100) 0)"
    using single_toggle_lights [OF e, of c] a by simp
  show "0 \<le> lights_value (fst (snd (parse_events c fr))) s"
    "lights_value (fst (snd (parse_events c fr))) s \<le> 100"
    unfolding 1 by simp_all
  fix n :: int
  assume n: "lights_value c s = of_int n \<and> 0 \<le> n \<and> n \<le> 100"
  then have "fadd (of_int n) (of_int 10) = of_int (n + 10)" "fsub (of_int n) (of_int 10) = of_int (n - 10)"
    by (simp_all only: light_step_exact)
  then have "max (min ((if shift_held ev then fsub else fadd) (lights_value c s) 10) 100) 0 =
      of_int (max (min (if shift_held ev then n - 10 else n + 10) 100) 0)"
    using n by (simp add: min_def max_def)
  then show "lights_value (fst (snd (parse_events c fr))) =
      (lights_value c)(s := of_int (max (min (if shift_held ev then n - 10 else n + 10) 100) 0))"
    using 1 by simp
next
  show "\<exists>k'. sensor_of_key k' = Some t"
  proof (cases t)
    case Front then show ?thesis by (intro exI [of _ K_1]) (simp add: sensor_of_key_def)
  next
    case FrontLeft then show ?thesis by (intro exI [of _ K_2]) (simp add: sensor_of_key_def)
  next
    case FrontRight then show ?thesis by (intro exI [of _ K_3]) (simp add: sensor_of_key_def)
  next
    case Left then show ?thesis by (intro exI [of _ K_4]) (simp add: sensor_of_key_def)
  next
    case Right then show ?thesis by (intro exI [of _ K_5]) (simp add: sensor_of_key_def)
  next
    case BackLeft then show ?thesis by (intro exI [of _ K_6]) (simp add: sensor_of_key_def)
  next
    case BackRight then show ?thesis by (intro exI [of _ K_7]) (simp add: sensor_of_key_def)
  next
    case Back then show ?thesis by (intro exI [of _ K_8]) (simp add: sensor_of_key_def)
  qed
qed

theorem light_toggle_witness:
  "events (toggle_frame K_1 False) = [\<lparr>etype = KEYUP K_1, shift_held = False\<rparr>] \<and>
   events (toggle_frame K_1 True) = [\<lparr>etype = KEYUP K_1, shift_held = True\<rparr>] \<and>
   sensor_of_key K_1 = Some Front \<and> lights_increase init = 10 \<and>
   lights_value init Front = 0 \<and>
   lights_value (fst (snd (parse_events init (toggle_frame K_1 False)))) = (lights_value init)(Front := 10) \<and>
   lights_value (fst (snd (parse_events (fst (snd (parse_events init (toggle_frame K_1 False))))
      (toggle_frame K_1 True)))) = (lights_value init)(Front := 0) \<and>
   lights_value (fst (snd (parse_events (fst (snd (parse_events init (toggle_frame K_1 True))))
      (toggle_frame K_1 True)))) Front = 0"
proof -
  define c1 where "c1 = fst (snd (parse_events init (toggle_frame K_1 False)))"
  define c2 where "c2 = fst (snd (parse_events init (toggle_frame K_1 True)))"
  have i: "lights_value init = (\<lambda>_. 0)" "lights_increase init = 10" by (simp_all add: init_def)
  have toggle: "lights_value (fst (snd (parse_events c (toggle_frame K_1 b)))) =
      (lights_value c)(Front := of_int (max (min (if b then n - 10 else n + 10) 100) 0))"
    if "lights_increase c = 10" "lights_value c Front = of_int n \<and> 0 \<le> n \<and> n \<le> 100" for c b n
  proof -
    have p: "events (toggle_frame K_1 b) = [\<lparr>etype = KEYUP K_1, shift_held = b\<rparr>] \<and>
        etype \<lparr>etype = KEYUP K_1, shift_held = b\<rparr> = KEYUP K_1 \<and>
        sensor_of_key K_1 = Some Front \<and> lights_increase c = 10"
      using that(1) by (simp add: toggle_frame_def sensor_of_key_def)
    show ?thesis
      using light_toggle [THEN conjunct1, THEN mp, OF p, THEN conjunct2, THEN conjunct2, THEN conjunct2,
          THEN spec, THEN mp, OF that(2)] by simp
  qed
  have 1: "lights_value c1 = (lights_value init)(Front := 10)"
    unfolding c1_def using toggle [of init 0 False] by (simp add: i)
  have t0: "lights_value c2 = (lights_value init)(Front := 0)"
    unfolding c2_def using toggle [of init 0 True] by (simp add: i)
  have inc: "lights_increase c1 = 10" "lights_increase c2 = 10" by (simp_all add: c1_def c2_def i)
  have 2: "lights_value (fst (snd (parse_events c1 (toggle_frame K_1 True)))) = (lights_value init)(Front := 0)"
    using toggle [of c1 10 True] inc by (simp add: 1 i)
  have 3: "lights_value (fst (snd (parse_events c2 (toggle_frame K_1 True)))) Front = 0"
    using toggle [of c2 0 True] inc by (simp add: t0 i)
  show ?thesis
    unfolding c1_def [symmetric] c2_def [symmetric] using 1 2 3
    by (simp add: i toggle_frame_def sensor_of_key_def)
qed

section \<open>Light levels are multiples of ten\<close>

text \<open>
  C9. After any sequence of frames from the initial state, the stored percentage of
  every light is one of 0, 10, 20, ..., 100.
\<close>

theorem light_levels_are_multiples_of_ten:
  "lights_value (game_loop init frs) s \<in> {0, 10, 20, 30, 40, 50, 60, 70, 80, 90, 100}"
  using reachable_light_levels [of frs s] by (simp only: light_levels_def)

section \<open>Decay of a negative speed\<close>

text \<open>
  C10. A decaying channel (linear or angular speed) whose value is negative is set to
  exactly 0 by one frame on which neither of its keys is pressed, whatever the size of
  the negative value.
\<close>

theorem negative_decays_to_zero_at_once:
  "(0 \<le> linear_speed_increase c \<and> linear_target_speed c < 0 \<and>
    \<not> list_ex quit_event (events fr) \<and>
    \<not> pressed fr K_UP \<and> \<not> pressed fr K_w \<and> \<not> pressed fr K_DOWN \<and> \<not> pressed fr K_s
      \<longrightarrow> linear_target_speed (fst (snd (parse_events c fr))) = 0) \<and>
   (0 \<le> angular_speed_increase c \<and> angular_target_speed c < 0 \<and>
    \<not> list_ex quit_event (events fr) \<and>
    \<not> pressed fr K_LEFT \<and> \<not> pressed fr K_a \<and> \<not> pressed fr K_RIGHT \<and> \<not> pressed fr K_d
      \<longrightarrow> angular_target_speed (fst (snd (parse_events c fr))) = 0)"
  by (simp add: parse_events_linear parse_events_angular decay_negative)


theorem negative_decays_to_zero_at_once_witness:
  "0 \<le> linear_speed_increase (game_loop init [held [K_DOWN, K_LEFT]]) \<and>
   linear_target_speed (game_loop init [held [K_DOWN, K_LEFT]]) = - (5764607523034235 / 576460752303423488) \<and>
   linear_target_speed (game_loop init [held [K_DOWN, K_LEFT]]) < 0 \<and>
   \<not> list_ex quit_event (events (held [])) \<and>
   \<not> pressed (held []) K_UP \<and> \<not> pressed (held []) K_w \<and>
   \<not> pressed (held []) K_DOWN \<and> \<not> pressed (held []) K_s \<and>
   linear_target_speed (fst (snd (parse_events (game_loop init [held [K_DOWN, K_LEFT]]) (held [])))) = 0 \<and>
   0 \<le> angular_speed_increase (game_loop init [held [K_DOWN, K_LEFT]]) \<and>
   angular_target_speed (game_loop init [held [K_DOWN, K_LEFT]]) < 0 \<and>
   angular_target_speed (fst (snd (parse_events (game_loop init [held [K_DOWN, K_LEFT]]) (held [])))) = 0"
proof -
  define c where "c = fst (snd (parse_events init (held [K_DOWN, K_LEFT])))"
  have inc: "linear_speed_increase c = 5764607523034235 / 576460752303423488"
    "angular_speed_increase c = 5764607523034235 / 576460752303423488"
    by (simp_all add: c_def init_eval)
  have lin: "linear_target_speed c = - (5764607523034235 / 576460752303423488)"
    by (simp add: c_def parse_events_linear init_eval ramp_down_def fl_eval)
  have ang: "angular_target_speed c = - (5764607523034235 / 576460752303423488)"
    by (simp add: c_def parse_events_angular init_eval ramp_down_def fl_eval)
  have "linear_target_speed (fst (snd (parse_events c (held [])))) = 0 \<and>
    angular_target_speed (fst (snd (parse_events c (held [])))) = 0"
    using negative_decays_to_zero_at_once [of c "held []"] by (simp add: inc lin ang)
  then show ?thesis
    unfolding game_loop_single c_def [symmetric] by (simp add: inc lin ang)
qed

end
